theory Spec2Isabelle
  imports Main
begin

section \<open>JavaScript strings and numbers\<close>

text \<open>
  The program is the ES-module command line tool (the file defining
  \<^verbatim>\<open>findCommandByIdOrAlias\<close>, \<^verbatim>\<open>handleRunCommand\<close> and \<^verbatim>\<open>handleImportCommand\<close>).
  JavaScript strings are modelled as \<^typ>\<open>string\<close> and read as ASCII text: white space
  is the ASCII white space of \<^verbatim>\<open>\s\<close> and \<^verbatim>\<open>trim()\<close>, and \<^verbatim>\<open>toLowerCase()\<close> folds
  the letters A to Z. JavaScript numbers that hold record ids are modelled as \<^typ>\<open>int\<close>
  (exact below \<open>2 ^ 53\<close>, where the doubles of the program are exact too).
\<close>

definition isWhiteSpace :: "char \<Rightarrow> bool" where
  "isWhiteSpace c = (c = CHR 0x09 \<or> c = CHR 0x0A \<or> c = CHR 0x0B \<or> c = CHR 0x0C
     \<or> c = CHR 0x0D \<or> c = CHR 0x20)"

definition isDigit :: "char \<Rightarrow> bool" where
  "isDigit c = (48 \<le> (of_char c :: nat) \<and> (of_char c :: nat) \<le> 57)"

definition digitValue :: "char \<Rightarrow> int" where
  "digitValue c = int (of_char c) - 48"

definition lowerChar :: "char \<Rightarrow> char" where
  "lowerChar c = (if 65 \<le> (of_char c :: nat) \<and> (of_char c :: nat) \<le> 90
     then char_of ((of_char c :: nat) + 32) else c)"

definition toLowerCase :: "string \<Rightarrow> string" where
  "toLowerCase s = map lowerChar s"

definition trim :: "string \<Rightarrow> string" where
  "trim s = rev (dropWhile isWhiteSpace (rev (dropWhile isWhiteSpace s)))"

text \<open>The regular expression test \<^verbatim>\<open>/\s|:/.test(v)\<close>.\<close>

definition hasSpaceOrColon :: "string \<Rightarrow> bool" where
  "hasSpaceOrColon v = list_ex (\<lambda>c. isWhiteSpace c \<or> c = CHR '':'') v"

text \<open>
  \<^verbatim>\<open>parseInt(s, 10)\<close>: leading white space is skipped, one sign is read, then the
  longest run of decimal digits; whatever follows is ignored. \<open>None\<close> is \<^verbatim>\<open>NaN\<close>.
\<close>

definition digitsValue :: "string \<Rightarrow> int" where
  "digitsValue ds = foldl (\<lambda>acc c. 10 * acc + digitValue c) 0 ds"

definition parseDigits :: "string \<Rightarrow> int option" where
  "parseDigits s = (let ds = takeWhile isDigit s in
     if ds = [] then None else Some (digitsValue ds))"

definition parseInt :: "string \<Rightarrow> int option" where
  "parseInt s = (case dropWhile isWhiteSpace s of
       [] \<Rightarrow> None
     | c # r \<Rightarrow>
         if c = CHR ''-'' then map_option uminus (parseDigits r)
         else if c = CHR ''+'' then parseDigits r
         else parseDigits (c # r))"

text \<open>The decimal text of an integer, \<^verbatim>\<open>String(n)\<close>: how an id is typed on the command line
  and written to the file.\<close>

fun digitsOfNat :: "nat \<Rightarrow> string" where
  "digitsOfNat n = (if n < 10 then [char_of (48 + n)]
     else digitsOfNat (n div 10) @ [char_of (48 + n mod 10)])"

declare digitsOfNat.simps [simp del]

definition stringOfInt :: "int \<Rightarrow> string" where
  "stringOfInt i = (if i < 0 then CHR ''-'' # digitsOfNat (nat (- i)) else digitsOfNat (nat i))"

section \<open>Command records\<close>

text \<open>
  A stored record \<^verbatim>\<open>{ id, alias, command, comment }\<close>. The value \<^verbatim>\<open>false\<close> of
  \<^verbatim>\<open>alias\<close> and \<^verbatim>\<open>comment\<close> is \<open>None\<close>. The test \<^verbatim>\<open>cmd.alias && ...\<close> is the
  truthiness of the field: \<^verbatim>\<open>false\<close> and the empty string are falsy.
\<close>

record cmd =
  id_c :: int
  alias_c :: "string option"
  command :: string
  comment :: "string option"

definition truthy :: "string option \<Rightarrow> bool" where
  "truthy a = (case a of None \<Rightarrow> False | Some s \<Rightarrow> s \<noteq> [])"

section \<open>Identifier resolver\<close>

text \<open>
  The loop of \<^verbatim>\<open>findCommandByIdOrAlias\<close>, started at index \<open>i\<close>; \<open>idSearch\<close> is
  the parsed specifier and \<open>searchLower\<close> its lower-case form.
\<close>

fun scanCommands :: "nat \<Rightarrow> int option \<Rightarrow> string \<Rightarrow> cmd list \<Rightarrow> (cmd \<times> nat) option" where
  "scanCommands i idSearch searchLower [] = None"
| "scanCommands i idSearch searchLower (c # cs) =
     (if idSearch \<noteq> None \<and> Some (id_c c) = idSearch then Some (c, i)
      else if (case alias_c c of None \<Rightarrow> False
               | Some a \<Rightarrow> a \<noteq> [] \<and> toLowerCase a = searchLower) then Some (c, i)
      else scanCommands (Suc i) idSearch searchLower cs)"

definition findCommandByIdOrAlias :: "string \<Rightarrow> cmd list \<Rightarrow> (cmd \<times> nat) option" where
  "findCommandByIdOrAlias specifier commands =
     scanCommands 0 (parseInt specifier) (toLowerCase specifier) commands"

text \<open>
  \<^verbatim>\<open>isAliasUnique(alias, commands, excludeId = null)\<close>; the default \<^verbatim>\<open>null\<close> of
  \<open>excludeId\<close> is \<open>None\<close>, which no numeric id equals.
\<close>

definition isAliasUnique :: "string option \<Rightarrow> cmd list \<Rightarrow> int option \<Rightarrow> bool" where
  "isAliasUnique a commands excludeId =
     (if \<not> truthy a then True
      else \<not> list_ex (\<lambda>c. truthy (alias_c c)
              \<and> map_option toLowerCase (alias_c c) = map_option toLowerCase a
              \<and> Some (id_c c) \<noteq> excludeId) commands)"

text \<open>The two criteria of the resolver, as the specification words them.\<close>

definition idMatch :: "string \<Rightarrow> cmd \<Rightarrow> bool" where
  "idMatch specifier c = (parseInt specifier = Some (id_c c))"

definition aliasMatch :: "string \<Rightarrow> cmd \<Rightarrow> bool" where
  "aliasMatch specifier c =
     (truthy (alias_c c) \<and> map_option toLowerCase (alias_c c) = Some (toLowerCase specifier))"

definition hit :: "string \<Rightarrow> cmd \<Rightarrow> bool" where
  "hit specifier c = (idMatch specifier c \<or> aliasMatch specifier c)"

text \<open>A record carries the alias \<open>a\<close>, under case-insensitive comparison.\<close>

definition sameAlias :: "string option \<Rightarrow> cmd \<Rightarrow> bool" where
  "sameAlias a c =
     (truthy (alias_c c) \<and> map_option toLowerCase (alias_c c) = map_option toLowerCase a)"

section \<open>Console messages\<close>

text \<open>
  Every line the handlers print, by its template; the payloads are the values the
  template interpolates.
\<close>

datatype message =
    ErrNoSpecifier
  | ErrNotFound string
  | ErrInsufficientArguments nat nat
  | WarnExtraArguments nat nat
  | WarnArgumentsIgnored "string list"
  | WarnExecutionCanceled
  | InfoRunning int "string option" string
  | OkFinished int
  | ErrCommandFailed int
  | ErrExitCode int
  | WarnAddCanceled
  | ErrAliasConflict string
  | OkAdded int "string option"
  | OkDeleted int
  | WarnDeletionCanceled
  | InfoEditing int "string option" string "string option"
  | WarnEditCanceled
  | OkUpdated int
  | InfoNoChanges
  | ErrImportFileNotFound
  | ErrImportParse
  | InfoNoValidCommands
  | InfoFound nat
  | InfoAppending
  | WarnImportAliasSkipped string string
  | OkAppended nat
  | InfoTotal nat
  | WarnImportCanceled
  | InfoReplacing
  | OkImported nat

section \<open>Invocation engine\<close>

text \<open>
  \<^verbatim>\<open>String.prototype.replace(pattern, replacement)\<close> with a string replacement expands
  the replacement first: \<^verbatim>\<open>$$\<close> is a dollar sign, \<^verbatim>\<open>$&\<close> the matched text, \<^verbatim>\<open>$`\<close> the
  text before the match and \<^verbatim>\<open>$'\<close> the text after it. There are no capture groups
  here, so every other use of \<^verbatim>\<open>$\<close> stands for itself.
\<close>

fun getSubstitution :: "string \<Rightarrow> string \<Rightarrow> string \<Rightarrow> string \<Rightarrow> string" where
  "getSubstitution matched preceding following [] = []"
| "getSubstitution matched preceding following [c] = [c]"
| "getSubstitution matched preceding following (c # d # r) =
     (if c \<noteq> CHR ''$'' then c # getSubstitution matched preceding following (d # r)
      else if d = CHR ''$'' then CHR ''$'' # getSubstitution matched preceding following r
      else if d = CHR ''&'' then matched @ getSubstitution matched preceding following r
      else if d = CHR 0x60 then preceding @ getSubstitution matched preceding following r
      else if d = CHR 0x27 then following @ getSubstitution matched preceding following r
      else c # getSubstitution matched preceding following (d # r))"

text \<open>
  The first occurrence of the placeholder \<^verbatim>\<open>{}\<close> in a string: the text before it and
  the text after it (\<open>None\<close> when \<^verbatim>\<open>commandString.includes(placeholder)\<close> is false).
\<close>

fun splitAtPlaceholder :: "string \<Rightarrow> (string \<times> string) option" where
  "splitAtPlaceholder [] = None"
| "splitAtPlaceholder [c] = None"
| "splitAtPlaceholder (c # d # s) =
     (if c = CHR ''{'' \<and> d = CHR ''}'' then Some ([], s)
      else map_option (\<lambda>(b, a). (c # b, a)) (splitAtPlaceholder (d # s)))"

text \<open>\<^verbatim>\<open>commandString.replace(placeholder, arg)\<close>: the first occurrence only.\<close>

definition replacePlaceholder :: "string \<Rightarrow> string \<Rightarrow> string" where
  "replacePlaceholder s arg = (case splitAtPlaceholder s of
       None \<Rightarrow> s
     | Some (b, a) \<Rightarrow> b @ getSubstitution ''{}'' b a arg @ a)"

text \<open>\<^verbatim>\<open>(commandString.match(/{}/g) || []).length\<close>: the matches do not overlap.\<close>

fun countPlaceholders :: "string \<Rightarrow> nat" where
  "countPlaceholders [] = 0"
| "countPlaceholders [c] = 0"
| "countPlaceholders (c # d # s) =
     (if c = CHR ''{'' \<and> d = CHR ''}'' then Suc (countPlaceholders s)
      else countPlaceholders (d # s))"

text \<open>
  The \<^verbatim>\<open>while\<close> loop of \<^verbatim>\<open>handleRunCommand\<close>; the list is \<^verbatim>\<open>runtimeArgs\<close> from
  \<^verbatim>\<open>currentArgIndex\<close> on. It runs while the string includes a placeholder and an argument
  is left.
\<close>

fun substituteLoop :: "string \<Rightarrow> string list \<Rightarrow> string" where
  "substituteLoop s [] = s"
| "substituteLoop s (a # args) =
     (if splitAtPlaceholder s \<noteq> None then substituteLoop (replacePlaceholder s a) args else s)"

text \<open>
  The block "Dynamic Placeholder Handling" of \<^verbatim>\<open>handleRunCommand\<close>: the message of the
  early return, or the command string with the warnings printed on the way.
\<close>

definition placeholderHandling :: "string \<Rightarrow> string list \<Rightarrow> message + string \<times> message list" where
  "placeholderHandling commandString runtimeArgs =
     (let placeholderCount = countPlaceholders commandString in
      if placeholderCount > 0 then
        if length runtimeArgs < placeholderCount
        then Inl (ErrInsufficientArguments placeholderCount (length runtimeArgs))
        else Inr (substituteLoop commandString runtimeArgs,
                  if length runtimeArgs > placeholderCount
                  then [WarnExtraArguments (length runtimeArgs) placeholderCount] else [])
      else if length runtimeArgs > 0
        then Inr (commandString, [WarnArgumentsIgnored runtimeArgs])
        else Inr (commandString, []))"

text \<open>
  \<^verbatim>\<open>commandString.replace(/^~(?=$|\/|\\)/, os.homedir())\<close>: a leading tilde that is the
  whole string or is followed by a slash or a backslash.
\<close>

definition expandTilde :: "string \<Rightarrow> string \<Rightarrow> string" where
  "expandTilde home s = (case s of
       [] \<Rightarrow> s
     | c # r \<Rightarrow>
         if c = CHR ''~'' \<and> (case r of [] \<Rightarrow> True | d # _ \<Rightarrow> d = CHR ''/'' \<or> d = CHR 0x5C)
         then getSubstitution ''~'' [] r home @ r
         else s)"

text \<open>
  What \<^verbatim>\<open>handleRunCommand\<close> does, in order: the lines it prints and the command it hands
  to \<^verbatim>\<open>execSync\<close>. \<open>commands\<close> is what \<^verbatim>\<open>readCommands()\<close> returned, \<open>confirm\<close> the answer
  to the prompt, \<open>execSync\<close> the outcome of the external command (an error carries the
  exit status when it is a number).
\<close>

datatype exec_result = ExecOk | ExecError "int option"

datatype effect = Print message | Exec string

definition handleRunCommand ::
  "string \<Rightarrow> bool \<Rightarrow> (string \<Rightarrow> exec_result) \<Rightarrow> string \<Rightarrow> string list \<Rightarrow> cmd list \<Rightarrow> effect list"
where
  "handleRunCommand home confirm execSync specifier runtimeArgs commands =
     (if specifier = [] then [Print ErrNoSpecifier]
      else case findCommandByIdOrAlias specifier commands of
        None \<Rightarrow> [Print (ErrNotFound specifier)]
      | Some (cmdToRun, i) \<Rightarrow>
          (case placeholderHandling (command cmdToRun) runtimeArgs of
             Inl e \<Rightarrow> [Print e]
           | Inr (commandString, warnings) \<Rightarrow>
               (let finalCommand = expandTilde home commandString in
                map Print warnings @
                (if \<not> confirm then [Print WarnExecutionCanceled]
                 else [Print (InfoRunning (id_c cmdToRun) (alias_c cmdToRun) finalCommand),
                       Exec finalCommand] @
                      (case execSync finalCommand of
                         ExecOk \<Rightarrow> [Print (OkFinished (id_c cmdToRun))]
                       | ExecError status \<Rightarrow>
                           Print (ErrCommandFailed (id_c cmdToRun)) #
                           (case status of None \<Rightarrow> [] | Some n \<Rightarrow> [Print (ErrExitCode n)]))))))"

text \<open>
  The specification's substitution: the placeholders of the command, left to right, each
  replaced by the next argument; a placeholder with no argument left stays.
\<close>

fun fillPlaceholders :: "string \<Rightarrow> string list \<Rightarrow> string" where
  "fillPlaceholders [] args = []"
| "fillPlaceholders [c] args = [c]"
| "fillPlaceholders (c # d # s) args =
     (if c = CHR ''{'' \<and> d = CHR ''}''
      then (case args of [] \<Rightarrow> c # d # fillPlaceholders s [] | a # rest \<Rightarrow> a @ fillPlaceholders s rest)
      else c # fillPlaceholders (d # s) args)"

text \<open>
  An argument that \<^verbatim>\<open>replace\<close> inserts as it is and that cannot form a new placeholder:
  not empty, and without braces and dollar signs.
\<close>

definition plainArg :: "string \<Rightarrow> bool" where
  "plainArg a = (a \<noteq> [] \<and> list_all (\<lambda>c. c \<noteq> CHR ''{'' \<and> c \<noteq> CHR ''}'' \<and> c \<noteq> CHR ''$'') a)"

section \<open>JSON values and the records file\<close>

text \<open>
  The values \<^verbatim>\<open>JSON.parse\<close> returns, and \<^verbatim>\<open>undefined\<close> for a property that is not there.
  An object is the list of its properties in order. Numbers are integers here: the
  program only asks whether a number is zero and compares ids.
\<close>

datatype jsval =
    JUndefined
  | JNull
  | JBool bool
  | JNum int
  | JStr string
  | JArr "jsval list"
  | JObj "(string \<times> jsval) list"

datatype js_error = TypeError

fun jsTruthy :: "jsval \<Rightarrow> bool" where
  "jsTruthy JUndefined = False"
| "jsTruthy JNull = False"
| "jsTruthy (JBool b) = b"
| "jsTruthy (JNum n) = (n \<noteq> 0)"
| "jsTruthy (JStr s) = (s \<noteq> [])"
| "jsTruthy (JArr xs) = True"
| "jsTruthy (JObj kvs) = True"

text \<open>
  Reading one of the properties \<^verbatim>\<open>id\<close>, \<^verbatim>\<open>alias\<close>, \<^verbatim>\<open>command\<close>, \<^verbatim>\<open>comment\<close>: an
  object gives the property's value or \<^verbatim>\<open>undefined\<close>, every other value but \<^verbatim>\<open>null\<close> and
  \<^verbatim>\<open>undefined\<close> gives \<^verbatim>\<open>undefined\<close> (numbers, strings, booleans and arrays have no such
  property), and reading a property of \<^verbatim>\<open>null\<close> or \<^verbatim>\<open>undefined\<close> throws a \<^verbatim>\<open>TypeError\<close>.
\<close>

fun getProp :: "jsval \<Rightarrow> string \<Rightarrow> jsval" where
  "getProp (JObj kvs) k = (case map_of kvs k of None \<Rightarrow> JUndefined | Some v \<Rightarrow> v)"
| "getProp v k = JUndefined"

definition nullish :: "jsval \<Rightarrow> bool" where
  "nullish v = (v = JNull \<or> v = JUndefined)"

text \<open>The state of a file: not there, there but not readable, or its content.\<close>

datatype file_state = Absent | Unreadable | Content string

text \<open>
  The configuration directory: there, missing but creatable, or missing and not
  creatable, in which case \<^verbatim>\<open>ensureConfigDirExists\<close> ends the process with status 1.
\<close>

datatype dir_state = DirExists | DirCreatable | DirUncreatable

datatype fatal = Exit1

datatype load_message =
    ErrNotJsonArray
  | WarnReturningEmptyFixFile
  | ErrCorruptJson
  | ErrReadingCommandsFile
  | WarnReturningEmptyDueToError

text \<open>
  The callback of \<^verbatim>\<open>commands.map\<close> in \<^verbatim>\<open>readCommands\<close>: the record with its defaults,
  or the \<^verbatim>\<open>TypeError\<close> of \<^verbatim>\<open>cmd.id\<close> on a \<^verbatim>\<open>null\<close> element.
\<close>

definition withDefaults :: "nat \<Rightarrow> jsval \<Rightarrow> js_error + jsval" where
  "withDefaults index c =
     (if nullish c then Inl TypeError
      else Inr (JObj
        [(''id'', if jsTruthy (getProp c ''id'') then getProp c ''id'' else JNum (int index + 1)),
         (''alias'', if jsTruthy (getProp c ''alias'') then getProp c ''alias'' else JBool False),
         (''command'', if jsTruthy (getProp c ''command'') then getProp c ''command''
                       else JStr ''INVALID_COMMAND''),
         (''comment'', if jsTruthy (getProp c ''comment'') then getProp c ''comment''
                       else JBool False)]))"

fun mapWithDefaults :: "nat \<Rightarrow> jsval list \<Rightarrow> js_error + jsval list" where
  "mapWithDefaults index [] = Inr []"
| "mapWithDefaults index (c # cs) =
     (case withDefaults index c of
        Inl e \<Rightarrow> Inl e
      | Inr r \<Rightarrow> (case mapWithDefaults (Suc index) cs of
                   Inl e \<Rightarrow> Inl e
                 | Inr rs \<Rightarrow> Inr (r # rs)))"

text \<open>
  \<^verbatim>\<open>readCommands\<close>. \<open>JSON_parse\<close> is the built-in parser, \<open>None\<close> when it throws its
  \<^verbatim>\<open>SyntaxError\<close>. The result is the lines printed and the list returned, or the end of
  the process.
\<close>

definition readCommands ::
  "(string \<Rightarrow> jsval option) \<Rightarrow> dir_state \<Rightarrow> file_state \<Rightarrow> fatal + load_message list \<times> jsval list"
where
  "readCommands JSON_parse configDir commandsFile =
     (if configDir = DirUncreatable then Inl Exit1
      else case commandsFile of
        Absent \<Rightarrow> Inr ([], [])
      | Unreadable \<Rightarrow> Inr ([ErrReadingCommandsFile, WarnReturningEmptyDueToError], [])
      | Content fileContent \<Rightarrow>
          if trim fileContent = [] then Inr ([], [])
          else (case JSON_parse fileContent of
             None \<Rightarrow> Inr ([ErrCorruptJson, WarnReturningEmptyDueToError], [])
           | Some (JArr commands) \<Rightarrow>
               (case mapWithDefaults 0 commands of
                  Inl e \<Rightarrow> Inr ([ErrReadingCommandsFile, WarnReturningEmptyDueToError], [])
                | Inr records \<Rightarrow> Inr ([], records))
           | Some other \<Rightarrow> Inr ([ErrNotJsonArray, WarnReturningEmptyFixFile], [])))"

section \<open>The store and its operations\<close>

text \<open>
  The persisted state as the handlers see it: the records the file \<^verbatim>\<open>dumbcli.json\<close>
  holds (the empty list when the file is absent) and the counter \<^verbatim>\<open>config.json\<close> holds
  (\<open>None\<close> when the file is absent). The handlers are modelled on this content, for runs
  in which the files hold well-typed records and every write completes; what a failing
  write leaves behind is the subject of the section on the handlers on the files.
\<close>

record store =
  fileCommands :: "cmd list"
  fileNextId :: "int option"

definition initialStore :: store where
  "initialStore = \<lparr>fileCommands = [], fileNextId = None\<rparr>"

definition readConfig :: "store \<Rightarrow> int" where
  "readConfig s = (case fileNextId s of None \<Rightarrow> 1 | Some nextId \<Rightarrow> nextId)"

definition writeConfig :: "int \<Rightarrow> store \<Rightarrow> store" where
  "writeConfig nextId s = s\<lparr>fileNextId := Some nextId\<rparr>"

text \<open>
  \<^verbatim>\<open>readCommands\<close> on well-typed records: the defaults of its \<^verbatim>\<open>map\<close> callback, where a
  zero id, an empty alias, an empty command and an empty comment are the falsy values.
\<close>

definition recordDefaults :: "nat \<Rightarrow> cmd \<Rightarrow> cmd" where
  "recordDefaults index c =
     \<lparr>id_c = (if id_c c \<noteq> 0 then id_c c else int index + 1),
      alias_c = (if truthy (alias_c c) then alias_c c else None),
      command = (if command c \<noteq> [] then command c else ''INVALID_COMMAND''),
      comment = (if truthy (comment c) then comment c else None)\<rparr>"

fun mapRecordDefaults :: "nat \<Rightarrow> cmd list \<Rightarrow> cmd list" where
  "mapRecordDefaults index [] = []"
| "mapRecordDefaults index (c # cs) = recordDefaults index c # mapRecordDefaults (Suc index) cs"

definition readCommands_store :: "store \<Rightarrow> cmd list" where
  "readCommands_store s = mapRecordDefaults 0 (fileCommands s)"

text \<open>\<^verbatim>\<open>writeCommands\<close>: the list is sorted by id (the sort is stable) and written.\<close>

definition writeCommands_store :: "cmd list \<Rightarrow> store \<Rightarrow> store" where
  "writeCommands_store commands s = s\<lparr>fileCommands := sort_key id_c commands\<rparr>"

definition getNextId :: "store \<Rightarrow> int \<times> store" where
  "getNextId s = (readConfig s, writeConfig (readConfig s + 1) s)"

text \<open>
  \<^verbatim>\<open>value?.trim() || false\<close> for an answer of \<^verbatim>\<open>prompts\<close>, which is a string or
  \<^verbatim>\<open>undefined\<close> (\<open>None\<close>) when the prompt was cancelled before it.
\<close>

definition trimOrFalse :: "string option \<Rightarrow> string option" where
  "trimOrFalse v = (case v of None \<Rightarrow> None
     | Some t \<Rightarrow> if trim t = [] then None else Some (trim t))"

subsection \<open>Add\<close>

text \<open>The answers of the three prompts of \<^verbatim>\<open>handleAddCommand\<close>.\<close>

record add_response =
  r_command :: "string option"
  r_alias :: "string option"
  r_comment :: "string option"

text \<open>The \<^verbatim>\<open>validate\<close> callbacks of the command prompt and of the alias prompt.\<close>

definition validateCommand :: "string \<Rightarrow> bool" where
  "validateCommand v = (trim v \<noteq> [])"

definition validateAlias :: "cmd list \<Rightarrow> string \<Rightarrow> bool" where
  "validateAlias commands v =
     (if v = [] then True
      else if hasSpaceOrColon v then False
      else isAliasUnique (Some (trim v)) commands None)"

definition handleAddCommand :: "add_response \<Rightarrow> store \<Rightarrow> store \<times> message list" where
  "handleAddCommand response s =
     (let commands = readCommands_store s in
      case r_command response of
        None \<Rightarrow> (s, [WarnAddCanceled])
      | Some c \<Rightarrow>
          if c = [] then (s, [WarnAddCanceled])
          else
            (let (newId, s1) = getNextId s;
                 a = trimOrFalse (r_alias response);
                 cm = trimOrFalse (r_comment response)
             in case (if isAliasUnique a commands None then None else a) of
                  Some conflicting \<Rightarrow> (s1, [ErrAliasConflict conflicting])
                | None \<Rightarrow>
                    (writeCommands_store
                       (commands @ [\<lparr>id_c = newId, alias_c = a, command = trim c, comment = cm\<rparr>])
                       s1,
                     [OkAdded newId a])))"

subsection \<open>Delete\<close>

definition handleDeleteCommand :: "bool \<Rightarrow> string \<Rightarrow> store \<Rightarrow> store \<times> message list" where
  "handleDeleteCommand confirm specifier s =
     (if specifier = [] then (s, [ErrNoSpecifier])
      else
        (let commands = readCommands_store s in
         case findCommandByIdOrAlias specifier commands of
           None \<Rightarrow> (s, [ErrNotFound specifier])
         | Some (cmdToDelete, internalIndex) \<Rightarrow>
             if confirm
             then (writeCommands_store
                     (take internalIndex commands @ drop (Suc internalIndex) commands) s,
                   [OkDeleted (id_c cmdToDelete)])
             else (s, [WarnDeletionCanceled])))"

subsection \<open>Edit\<close>

record edit_response =
  newCommand :: "string option"
  newAlias :: "string option"
  newComment :: "string option"

text \<open>
  The update of the alias and of the comment follow the same three cases: a single space
  clears, a text that is not blank after trimming and differs from the current value
  sets, anything else keeps. The result is the new value and whether it counts as a
  change.
\<close>

definition updateOptional :: "string \<Rightarrow> string option \<Rightarrow> string option \<times> bool" where
  "updateOptional input current =
     (if input = '' '' then (if current \<noteq> None then (None, True) else (current, False))
      else if trim input \<noteq> [] \<and> trim input \<noteq> (case current of None \<Rightarrow> [] | Some t \<Rightarrow> t)
        then (Some (trim input), True)
        else (current, False))"

text \<open>
  \<^verbatim>\<open>handleEditCommand\<close>. When the command prompt was answered and a later prompt was
  cancelled, \<^verbatim>\<open>updatedAliasInput.trim()\<close> (or the same call on the comment) is a call on
  \<^verbatim>\<open>undefined\<close>: the handler throws before it writes.
\<close>

definition handleEditCommand ::
  "edit_response \<Rightarrow> string \<Rightarrow> store \<Rightarrow> js_error + store \<times> message list"
where
  "handleEditCommand response specifier s =
     (if specifier = [] then Inr (s, [ErrNoSpecifier])
      else
        (let commands = readCommands_store s in
         case findCommandByIdOrAlias specifier commands of
           None \<Rightarrow> Inr (s, [ErrNotFound specifier])
         | Some (cmdToEdit, internalIndex) \<Rightarrow>
            (let info = InfoEditing (id_c cmdToEdit) (alias_c cmdToEdit) (command cmdToEdit)
                          (comment cmdToEdit)
             in case newCommand response of
               None \<Rightarrow> Inr (s, [info, WarnEditCanceled])
             | Some nc \<Rightarrow>
                 (case newAlias response of
                    None \<Rightarrow> Inl TypeError
                  | Some updatedAliasInput \<Rightarrow>
                      (case newComment response of
                         None \<Rightarrow> Inl TypeError
                       | Some updatedCommentInput \<Rightarrow>
                          (let updatedCommand = trim nc;
                               changedCommand =
                                 (updatedCommand \<noteq> [] \<and> updatedCommand \<noteq> command cmdToEdit);
                               (finalAlias, changedAlias) =
                                 updateOptional updatedAliasInput (alias_c cmdToEdit);
                               (finalComment, changedComment) =
                                 updateOptional updatedCommentInput (comment cmdToEdit);
                               edited = \<lparr>id_c = id_c cmdToEdit, alias_c = finalAlias,
                                  command = (if changedCommand then updatedCommand
                                             else command cmdToEdit),
                                  comment = finalComment\<rparr>;
                               commands' = commands[internalIndex := edited]
                           in if changedCommand \<or> changedAlias \<or> changedComment then
                                (case (if isAliasUnique finalAlias commands' (Some (id_c cmdToEdit))
                                       then None else finalAlias) of
                                   Some conflicting \<Rightarrow>
                                     Inr (s, [info, ErrAliasConflict conflicting])
                                 | None \<Rightarrow>
                                     Inr (writeCommands_store commands' s,
                                          [info, OkUpdated (id_c cmdToEdit)]))
                              else Inr (s, [info, InfoNoChanges])))))))"

subsection \<open>Import\<close>

text \<open>The filter \<^verbatim>\<open>cmd && typeof cmd.command === 'string'\<close>.\<close>

definition validEntry :: "jsval \<Rightarrow> bool" where
  "validEntry c = (jsTruthy c \<and> (case getProp c ''command'' of JStr t \<Rightarrow> True | _ \<Rightarrow> False))"

definition entryCommand :: "jsval \<Rightarrow> string" where
  "entryCommand c = (case getProp c ''command'' of JStr t \<Rightarrow> t | _ \<Rightarrow> [])"

text \<open>
  \<^verbatim>\<open>impCmd.comment?.trim() || false\<close>: the optional call only skips \<^verbatim>\<open>null\<close> and
  \<^verbatim>\<open>undefined\<close>; on any other value that is not a string (\<^verbatim>\<open>false\<close> among them) it calls
  a \<^verbatim>\<open>trim\<close> that is not there and throws.
\<close>

definition entryComment :: "jsval \<Rightarrow> js_error + string option" where
  "entryComment c = (case getProp c ''comment'' of
       JUndefined \<Rightarrow> Inr None
     | JNull \<Rightarrow> Inr None
     | JStr t \<Rightarrow> Inr (if trim t = [] then None else Some (trim t))
     | _ \<Rightarrow> Inl TypeError)"

text \<open>
  \<^verbatim>\<open>commands.map(cmd => cmd.alias?.toLowerCase()).filter(Boolean)\<close>: a record without
  alias holds \<^verbatim>\<open>false\<close>, which is not skipped by the optional call, so the call throws;
  the filter drops empty strings.
\<close>

fun aliasesLower :: "cmd list \<Rightarrow> js_error + string list" where
  "aliasesLower [] = Inr []"
| "aliasesLower (c # cs) =
     (case alias_c c of
        None \<Rightarrow> Inl TypeError
      | Some a \<Rightarrow>
          (case aliasesLower cs of
             Inl e \<Rightarrow> Inl e
           | Inr ls \<Rightarrow> Inr (if toLowerCase a = [] then ls else toLowerCase a # ls)))"

text \<open>
  One round of the \<^verbatim>\<open>forEach\<close> of the append mode, on \<^verbatim>\<open>nextId\<close>, \<^verbatim>\<open>commandsToWrite\<close> and
  the lines printed so far.
\<close>

definition appendEntry ::
  "jsval \<Rightarrow> int \<times> cmd list \<times> message list \<Rightarrow> js_error + int \<times> cmd list \<times> message list"
where
  "appendEntry impCmd acc =
     (case acc of (nextId, commandsToWrite, out) \<Rightarrow>
       (case entryComment impCmd of
          Inl e \<Rightarrow> Inl e
        | Inr cm \<Rightarrow>
           (let newCmd = \<lparr>id_c = nextId, alias_c = None,
                          command = trim (entryCommand impCmd), comment = cm\<rparr>
            in if jsTruthy (getProp impCmd ''alias'') then
                 (case getProp impCmd ''alias'' of
                    JStr a \<Rightarrow>
                      (case aliasesLower commandsToWrite of
                         Inl e \<Rightarrow> Inl e
                       | Inr currentAliasesLower \<Rightarrow>
                           if \<not> hasSpaceOrColon (trim a)
                              \<and> toLowerCase (trim a) \<notin> set currentAliasesLower
                           then Inr (nextId + 1,
                                     commandsToWrite @ [newCmd\<lparr>alias_c := Some (trim a)\<rparr>], out)
                           else Inr (nextId + 1, commandsToWrite @ [newCmd],
                                     out @ [WarnImportAliasSkipped (trim a)
                                              (take 30 (command newCmd))]))
                  | _ \<Rightarrow> Inl TypeError)
               else Inr (nextId + 1, commandsToWrite @ [newCmd], out))))"

fun appendEntries ::
  "jsval list \<Rightarrow> int \<times> cmd list \<times> message list \<Rightarrow> js_error + int \<times> cmd list \<times> message list"
where
  "appendEntries [] acc = Inr acc"
| "appendEntries (e # es) acc =
     (case appendEntry e acc of Inl err \<Rightarrow> Inl err | Inr acc' \<Rightarrow> appendEntries es acc')"

text \<open>
  One round of the \<^verbatim>\<open>forEach\<close> of the overwrite mode; the third component is the set
  \<^verbatim>\<open>importedAliasesLower\<close>.
\<close>

definition replaceEntry ::
  "jsval \<Rightarrow> int \<times> cmd list \<times> string list \<times> message list
     \<Rightarrow> js_error + int \<times> cmd list \<times> string list \<times> message list"
where
  "replaceEntry impCmd acc =
     (case acc of (nextId, commandsToWrite, importedAliasesLower, out) \<Rightarrow>
       (case entryComment impCmd of
          Inl e \<Rightarrow> Inl e
        | Inr cm \<Rightarrow>
           (let newCmd = \<lparr>id_c = nextId, alias_c = None,
                          command = trim (entryCommand impCmd), comment = cm\<rparr>
            in if jsTruthy (getProp impCmd ''alias'') then
                 (case getProp impCmd ''alias'' of
                    JStr a \<Rightarrow>
                      if \<not> hasSpaceOrColon (trim a)
                         \<and> toLowerCase (trim a) \<notin> set importedAliasesLower
                      then Inr (nextId + 1,
                                commandsToWrite @ [newCmd\<lparr>alias_c := Some (trim a)\<rparr>],
                                toLowerCase (trim a) # importedAliasesLower, out)
                      else Inr (nextId + 1, commandsToWrite @ [newCmd], importedAliasesLower,
                                out @ [WarnImportAliasSkipped (trim a)
                                         (take 30 (command newCmd))])
                  | _ \<Rightarrow> Inl TypeError)
               else Inr (nextId + 1, commandsToWrite @ [newCmd], importedAliasesLower, out))))"

fun replaceEntries ::
  "jsval list \<Rightarrow> int \<times> cmd list \<times> string list \<times> message list
     \<Rightarrow> js_error + int \<times> cmd list \<times> string list \<times> message list"
where
  "replaceEntries [] acc = Inr acc"
| "replaceEntries (e # es) acc =
     (case replaceEntry e acc of Inl err \<Rightarrow> Inl err | Inr acc' \<Rightarrow> replaceEntries es acc')"

text \<open>The loop that finds \<^verbatim>\<open>maxCurrentId\<close>, and the start of the new ids.\<close>

definition maxCurrentId :: "cmd list \<Rightarrow> int" where
  "maxCurrentId currentCommands = foldl (\<lambda>m c. if id_c c \<ge> m then id_c c else m) 0 currentCommands"

definition firstNewId :: "store \<Rightarrow> int" where
  "firstNewId s =
     (if readConfig s \<le> maxCurrentId (readCommands_store s)
      then maxCurrentId (readCommands_store s) + 1 else readConfig s)"

text \<open>
  What reading the import file gives: the path is no file; reading or \<^verbatim>\<open>JSON.parse\<close>
  throws; or the parsed value.
\<close>

datatype import_source = NotAFile | Unparsable | Parsed jsval

text \<open>
  \<^verbatim>\<open>handleImportCommand\<close>: \<open>confirm\<close> is the answer to the prompt of the overwrite mode.
  An exception leaves the handler before anything is written.
\<close>

definition handleImportCommand ::
  "import_source \<Rightarrow> bool \<Rightarrow> bool \<Rightarrow> store \<Rightarrow> js_error + store \<times> message list"
where
  "handleImportCommand importFile appendMode confirm s =
     (case importFile of
        NotAFile \<Rightarrow> Inr (s, [ErrImportFileNotFound])
      | Unparsable \<Rightarrow> Inr (s, [ErrImportParse])
      | Parsed (JArr entries) \<Rightarrow>
          (let importedCommands = filter validEntry entries in
           if importedCommands = [] then Inr (s, [InfoNoValidCommands])
           else
             (let out0 = [InfoFound (length importedCommands)];
                  currentCommands = readCommands_store s;
                  nextId = firstNewId s
              in if appendMode then
                   (case aliasesLower currentCommands of
                      Inl e \<Rightarrow> Inl e
                    | Inr existingAliasesLower \<Rightarrow>
                       (case appendEntries importedCommands
                               (nextId, currentCommands, out0 @ [InfoAppending]) of
                          Inl e \<Rightarrow> Inl e
                        | Inr (nextId', commandsToWrite, out) \<Rightarrow>
                            Inr (writeCommands_store commandsToWrite (writeConfig nextId' s),
                                 out @ [OkAppended (length importedCommands),
                                        InfoTotal (length commandsToWrite)])))
                 else if \<not> confirm then Inr (s, out0 @ [WarnImportCanceled])
                 else
                   (case replaceEntries importedCommands
                           (nextId, [], [], out0 @ [InfoReplacing]) of
                      Inl e \<Rightarrow> Inl e
                    | Inr (nextId', commandsToWrite, seen, out) \<Rightarrow>
                        Inr (writeCommands_store commandsToWrite (writeConfig nextId' s),
                             out @ [OkImported (length commandsToWrite)]))))
      | Parsed other \<Rightarrow> Inr (s, [ErrImportParse]))"

subsection \<open>Stores reached from the empty directory\<close>

text \<open>
  One step is one run of a handler that changes the store, with any input; a run that
  throws changes nothing. \<open>reachableFromEmpty\<close> holds of the stores that such runs reach
  from the empty configuration directory. A directory that holds the records file of the
  earlier version of the program (records without id, no counter file), which
  \<^verbatim>\<open>readCommands\<close> reads with its migration defaults, is not among them.
\<close>

inductive step :: "store \<Rightarrow> store \<Rightarrow> bool" where
  by_add: "step s (fst (handleAddCommand response s))"
| by_delete: "step s (fst (handleDeleteCommand confirm specifier s))"
| by_edit: "handleEditCommand eresponse specifier s = Inr (s', out) \<Longrightarrow> step s s'"
| by_import:
    "handleImportCommand importFile appendMode confirm s = Inr (s', out) \<Longrightarrow> step s s'"

inductive reachableFromEmpty :: "store \<Rightarrow> bool" where
  at_start: "reachableFromEmpty initialStore"
| after_step: "reachableFromEmpty s \<Longrightarrow> step s s' \<Longrightarrow> reachableFromEmpty s'"

text \<open>
  The invariant of the counter: it is positive and above every stored id, and the stored
  ids are positive.
\<close>

definition storeInvariant :: "store \<Rightarrow> bool" where
  "storeInvariant s =
     (0 < readConfig s \<and> (\<forall>c \<in> set (fileCommands s). 0 < id_c c \<and> id_c c < readConfig s))"

text \<open>
  The alias an imported entry ends up with, in the words of the specification: the
  trimmed alias when it has no white space and no colon and no record of \<open>cs\<close> (the
  existing records and those added earlier in the batch) carries it, no alias otherwise.
\<close>

definition keptAlias :: "jsval \<Rightarrow> cmd list \<Rightarrow> string option" where
  "keptAlias e cs = (case getProp e ''alias'' of
       JStr a \<Rightarrow>
         if a \<noteq> [] \<and> \<not> hasSpaceOrColon (trim a)
            \<and> list_all (\<lambda>c. \<not> sameAlias (Some (trim a)) c) cs
         then Some (trim a) else None
     | _ \<Rightarrow> None)"

text \<open>An entry that is valid in the words of the specification: its command is not empty.\<close>

definition hasNonEmptyCommand :: "jsval \<Rightarrow> bool" where
  "hasNonEmptyCommand e = (validEntry e \<and> entryCommand e \<noteq> [])"

text \<open>
  What the specification says of one imported entry \<open>e\<close>: the record \<open>x\<close> made for it has
  the id \<open>n\<close>, the trimmed command, the alias that \<open>keptAlias\<close> gives against the records
  \<open>cs\<close> in front of it, and when the entry asked for an alias and the record has none, the
  lines printed hold the warning for it.
\<close>

definition importedAs :: "jsval \<Rightarrow> cmd list \<Rightarrow> message list \<Rightarrow> int \<Rightarrow> cmd \<Rightarrow> bool" where
  "importedAs e cs out n x =
     (id_c x = n \<and> command x = trim (entryCommand e) \<and> alias_c x = keptAlias e cs
      \<and> (jsTruthy (getProp e ''alias'') \<and> alias_c x = None \<longrightarrow>
           (\<exists>a. getProp e ''alias'' = JStr a
              \<and> WarnImportAliasSkipped (trim a) (take 30 (command x)) \<in> set out)))"

text \<open>
  What \<^verbatim>\<open>prompts\<close> guarantees of the answers of the add handler when the command prompt
  was answered: each answer given passed its \<^verbatim>\<open>validate\<close> callback.
\<close>

definition validAddResponse :: "cmd list \<Rightarrow> add_response \<Rightarrow> bool" where
  "validAddResponse commands response =
     ((case r_command response of None \<Rightarrow> False | Some c \<Rightarrow> validateCommand c)
      \<and> (case r_alias response of None \<Rightarrow> True | Some a \<Rightarrow> validateAlias commands a))"

text \<open>The record the add handler makes from the answers, with the id \<open>newId\<close>.\<close>

definition createdRecord :: "int \<Rightarrow> add_response \<Rightarrow> cmd" where
  "createdRecord newId response =
     \<lparr>id_c = newId, alias_c = trimOrFalse (r_alias response),
      command = trim (case r_command response of None \<Rightarrow> [] | Some c \<Rightarrow> c),
      comment = trimOrFalse (r_comment response)\<rparr>"

section \<open>Writing the records file\<close>

text \<open>
  \<^verbatim>\<open>JSON.stringify(value, null, 2)\<close> on the values above. A string is quoted with the
  escapes of JSON; an array or object that is not empty is spread over lines, indented by
  two spaces per level; a property whose value is \<^verbatim>\<open>undefined\<close> is left out of an object,
  and \<^verbatim>\<open>undefined\<close> in an array is written \<^verbatim>\<open>null\<close>.
\<close>

definition hexDigit :: "nat \<Rightarrow> char" where
  "hexDigit n = (if n < 10 then char_of (48 + n) else char_of (87 + n))"

definition escapeChar :: "char \<Rightarrow> string" where
  "escapeChar c =
     (if c = CHR 0x08 then [CHR 0x5C, CHR ''b'']
      else if c = CHR 0x09 then [CHR 0x5C, CHR ''t'']
      else if c = CHR 0x0A then [CHR 0x5C, CHR ''n'']
      else if c = CHR 0x0C then [CHR 0x5C, CHR ''f'']
      else if c = CHR 0x0D then [CHR 0x5C, CHR ''r'']
      else if c = CHR 0x22 then [CHR 0x5C, CHR 0x22]
      else if c = CHR 0x5C then [CHR 0x5C, CHR 0x5C]
      else if (of_char c :: nat) < 32
        then [CHR 0x5C, CHR ''u'', CHR ''0'', CHR ''0'',
              hexDigit ((of_char c :: nat) div 16), hexDigit ((of_char c :: nat) mod 16)]
      else [c])"

definition quoteJSON :: "string \<Rightarrow> string" where
  "quoteJSON s = CHR 0x22 # concat (map escapeChar s) @ [CHR 0x22]"

definition indent :: "nat \<Rightarrow> string" where
  "indent k = replicate (2 * k) (CHR '' '')"

fun joinWith :: "string \<Rightarrow> string list \<Rightarrow> string" where
  "joinWith sep [] = []"
| "joinWith sep [x] = x"
| "joinWith sep (x # y # ys) = x @ sep @ joinWith sep (y # ys)"

definition spread :: "nat \<Rightarrow> char \<Rightarrow> string list \<Rightarrow> char \<Rightarrow> string" where
  "spread k opening parts closing =
     (if parts = [] then [opening, closing]
      else opening # CHR 0x0A # indent (Suc k)
           @ joinWith (CHR '','' # CHR 0x0A # indent (Suc k)) parts
           @ CHR 0x0A # indent k @ [closing])"

fun stringify :: "nat \<Rightarrow> jsval \<Rightarrow> string"
  and stringifyElements :: "nat \<Rightarrow> jsval list \<Rightarrow> string list"
  and stringifyProperties :: "nat \<Rightarrow> (string \<times> jsval) list \<Rightarrow> string list"
where
  "stringify k JUndefined = ''null''"
| "stringify k JNull = ''null''"
| "stringify k (JBool b) = (if b then ''true'' else ''false'')"
| "stringify k (JNum n) = stringOfInt n"
| "stringify k (JStr s) = quoteJSON s"
| "stringify k (JArr xs) = spread k (CHR ''['') (stringifyElements (Suc k) xs) (CHR '']'')"
| "stringify k (JObj kvs) = spread k (CHR ''{'') (stringifyProperties (Suc k) kvs) (CHR ''}'')"
| "stringifyElements k [] = []"
| "stringifyElements k (x # xs) = stringify k x # stringifyElements k xs"
| "stringifyProperties k [] = []"
| "stringifyProperties k ((key, v) # kvs) =
     (if v = JUndefined then stringifyProperties k kvs
      else (quoteJSON key @ '': '' @ stringify k v) # stringifyProperties k kvs)"

text \<open>
  The object \<^verbatim>\<open>readCommands\<close> builds for a record, and the object the add and import
  handlers build for a new record: the same properties in another order.
\<close>

definition optionalString :: "string option \<Rightarrow> jsval" where
  "optionalString v = (case v of None \<Rightarrow> JBool False | Some t \<Rightarrow> JStr t)"

definition loadedObject :: "cmd \<Rightarrow> jsval" where
  "loadedObject c = JObj [(''id'', JNum (id_c c)), (''alias'', optionalString (alias_c c)),
     (''command'', JStr (command c)), (''comment'', optionalString (comment c))]"

definition createdObject :: "cmd \<Rightarrow> jsval" where
  "createdObject c = JObj [(''id'', JNum (id_c c)), (''command'', JStr (command c)),
     (''alias'', optionalString (alias_c c)), (''comment'', optionalString (comment c))]"

text \<open>
  \<^verbatim>\<open>fs.writeFileSync(path, data)\<close> opens the file for writing, which creates or empties it,
  and writes the data. It can fail before the file is opened, which leaves the file as
  it was, or after some of the data is written.
\<close>

datatype write_fault = NoFault | OpenFails | WriteFailsAfter nat

datatype io_error = IOError

definition writeFileSync :: "write_fault \<Rightarrow> string \<Rightarrow> file_state \<Rightarrow> io_error option \<times> file_state" where
  "writeFileSync fault content f = (case fault of
       NoFault \<Rightarrow> (None, Content content)
     | OpenFails \<Rightarrow> (Some IOError, f)
     | WriteFailsAfter k \<Rightarrow> (Some IOError, Content (take k content)))"

datatype write_message = ErrWritingCommandsFile | ErrWritingConfigFile

text \<open>
  \<^verbatim>\<open>writeCommands\<close> on a list of record objects with numeric ids: the list is sorted by
  \<^verbatim>\<open>a.id - b.id\<close>, serialised and written over the records file; an exception of the
  write is caught and reported.
\<close>

definition idOf :: "jsval \<Rightarrow> int" where
  "idOf c = (case getProp c ''id'' of JNum n \<Rightarrow> n | _ \<Rightarrow> 0)"

definition writeCommands ::
  "write_fault \<Rightarrow> dir_state \<Rightarrow> jsval list \<Rightarrow> file_state \<Rightarrow> fatal + write_message list \<times> file_state"
where
  "writeCommands fault configDir commands commandsFile =
     (if configDir = DirUncreatable then Inl Exit1
      else
        (let sortedCommands = sort_key idOf commands in
         case writeFileSync fault (stringify 0 (JArr sortedCommands)) commandsFile of
           (None, f) \<Rightarrow> Inr ([], f)
         | (Some err, f) \<Rightarrow> Inr ([ErrWritingCommandsFile], f)))"

text \<open>
  \<^verbatim>\<open>writeConfig\<close> on the counter file follows the same scheme, with the object that holds
  \<^verbatim>\<open>nextId\<close>.
\<close>

definition writeConfig_file ::
  "write_fault \<Rightarrow> dir_state \<Rightarrow> int \<Rightarrow> file_state \<Rightarrow> fatal + write_message list \<times> file_state"
where
  "writeConfig_file fault configDir nextId configFilePath =
     (if configDir = DirUncreatable then Inl Exit1
      else
        (case writeFileSync fault (stringify 0 (JObj [(''nextId'', JNum nextId)])) configFilePath of
           (None, f) \<Rightarrow> Inr ([], f)
         | (Some err, f) \<Rightarrow> Inr ([ErrWritingConfigFile], f)))"

section \<open>The handlers on the files\<close>

text \<open>
  What a run of a handler hands to \<^verbatim>\<open>writeConfig\<close> and to \<^verbatim>\<open>writeCommands\<close>: the counter,
  when it writes one, and the list of records, when it writes one. No handler calls
  either function twice, and a handler that calls both calls \<^verbatim>\<open>writeConfig\<close> first. The
  list comes in two parts: first the objects that \<^verbatim>\<open>readCommands\<close> returned (the edit
  handler changes such an object in place, the delete handler removes one), then the
  objects that the handler made and pushed behind them. The two kinds of object differ
  in the order of their properties, see \<open>loadedObject\<close> and \<open>createdObject\<close>.
\<close>

record writes =
  configWrite :: "int option"
  commandsWrite :: "(cmd list \<times> cmd list) option"

definition noWrites :: writes where
  "noWrites = \<lparr>configWrite = None, commandsWrite = None\<rparr>"

text \<open>
  The four handlers that change the files, on the list that \<^verbatim>\<open>readCommands()\<close> returned
  and the counter that \<^verbatim>\<open>readConfig()\<close> returned: the handlers of the store above, with the
  calls of the two write functions recorded in place of their effect on the store.
\<close>

definition handleAddCommand_writes ::
  "add_response \<Rightarrow> cmd list \<Rightarrow> int \<Rightarrow> writes \<times> message list"
where
  "handleAddCommand_writes response commands nextId =
     (case r_command response of
        None \<Rightarrow> (noWrites, [WarnAddCanceled])
      | Some c \<Rightarrow>
          if c = [] then (noWrites, [WarnAddCanceled])
          else
            (let newId = nextId;
                 a = trimOrFalse (r_alias response);
                 cm = trimOrFalse (r_comment response)
             in case (if isAliasUnique a commands None then None else a) of
                  Some conflicting \<Rightarrow>
                    (\<lparr>configWrite = Some (nextId + 1), commandsWrite = None\<rparr>,
                     [ErrAliasConflict conflicting])
                | None \<Rightarrow>
                    (\<lparr>configWrite = Some (nextId + 1),
                      commandsWrite = Some (commands,
                        [\<lparr>id_c = newId, alias_c = a, command = trim c, comment = cm\<rparr>])\<rparr>,
                     [OkAdded newId a])))"

definition handleDeleteCommand_writes ::
  "bool \<Rightarrow> string \<Rightarrow> cmd list \<Rightarrow> writes \<times> message list"
where
  "handleDeleteCommand_writes confirm specifier commands =
     (if specifier = [] then (noWrites, [ErrNoSpecifier])
      else
        (case findCommandByIdOrAlias specifier commands of
           None \<Rightarrow> (noWrites, [ErrNotFound specifier])
         | Some (cmdToDelete, internalIndex) \<Rightarrow>
             if confirm
             then (\<lparr>configWrite = None,
                    commandsWrite = Some
                      (take internalIndex commands @ drop (Suc internalIndex) commands, [])\<rparr>,
                   [OkDeleted (id_c cmdToDelete)])
             else (noWrites, [WarnDeletionCanceled])))"

definition handleEditCommand_writes ::
  "edit_response \<Rightarrow> string \<Rightarrow> cmd list \<Rightarrow> js_error + writes \<times> message list"
where
  "handleEditCommand_writes response specifier commands =
     (if specifier = [] then Inr (noWrites, [ErrNoSpecifier])
      else
        (case findCommandByIdOrAlias specifier commands of
           None \<Rightarrow> Inr (noWrites, [ErrNotFound specifier])
         | Some (cmdToEdit, internalIndex) \<Rightarrow>
            (let info = InfoEditing (id_c cmdToEdit) (alias_c cmdToEdit) (command cmdToEdit)
                          (comment cmdToEdit)
             in case newCommand response of
               None \<Rightarrow> Inr (noWrites, [info, WarnEditCanceled])
             | Some nc \<Rightarrow>
                 (case newAlias response of
                    None \<Rightarrow> Inl TypeError
                  | Some updatedAliasInput \<Rightarrow>
                      (case newComment response of
                         None \<Rightarrow> Inl TypeError
                       | Some updatedCommentInput \<Rightarrow>
                          (let updatedCommand = trim nc;
                               changedCommand =
                                 (updatedCommand \<noteq> [] \<and> updatedCommand \<noteq> command cmdToEdit);
                               (finalAlias, changedAlias) =
                                 updateOptional updatedAliasInput (alias_c cmdToEdit);
                               (finalComment, changedComment) =
                                 updateOptional updatedCommentInput (comment cmdToEdit);
                               edited = \<lparr>id_c = id_c cmdToEdit, alias_c = finalAlias,
                                  command = (if changedCommand then updatedCommand
                                             else command cmdToEdit),
                                  comment = finalComment\<rparr>;
                               commands' = commands[internalIndex := edited]
                           in if changedCommand \<or> changedAlias \<or> changedComment then
                                (case (if isAliasUnique finalAlias commands' (Some (id_c cmdToEdit))
                                       then None else finalAlias) of
                                   Some conflicting \<Rightarrow>
                                     Inr (noWrites, [info, ErrAliasConflict conflicting])
                                 | None \<Rightarrow>
                                     Inr (\<lparr>configWrite = None,
                                           commandsWrite = Some (commands', [])\<rparr>,
                                          [info, OkUpdated (id_c cmdToEdit)]))
                              else Inr (noWrites, [info, InfoNoChanges])))))))"

definition handleImportCommand_writes ::
  "import_source \<Rightarrow> bool \<Rightarrow> bool \<Rightarrow> cmd list \<Rightarrow> int \<Rightarrow> js_error + writes \<times> message list"
where
  "handleImportCommand_writes importFile appendMode confirm currentCommands configNextId =
     (case importFile of
        NotAFile \<Rightarrow> Inr (noWrites, [ErrImportFileNotFound])
      | Unparsable \<Rightarrow> Inr (noWrites, [ErrImportParse])
      | Parsed (JArr entries) \<Rightarrow>
          (let importedCommands = filter validEntry entries in
           if importedCommands = [] then Inr (noWrites, [InfoNoValidCommands])
           else
             (let out0 = [InfoFound (length importedCommands)];
                  nextId = (if configNextId \<le> maxCurrentId currentCommands
                            then maxCurrentId currentCommands + 1 else configNextId)
              in if appendMode then
                   (case aliasesLower currentCommands of
                      Inl e \<Rightarrow> Inl e
                    | Inr existingAliasesLower \<Rightarrow>
                       (case appendEntries importedCommands
                               (nextId, currentCommands, out0 @ [InfoAppending]) of
                          Inl e \<Rightarrow> Inl e
                        | Inr (nextId', commandsToWrite, out) \<Rightarrow>
                            Inr (\<lparr>configWrite = Some nextId',
                                  commandsWrite = Some
                                    (take (length currentCommands) commandsToWrite,
                                     drop (length currentCommands) commandsToWrite)\<rparr>,
                                 out @ [OkAppended (length importedCommands),
                                        InfoTotal (length commandsToWrite)])))
                 else if \<not> confirm then Inr (noWrites, out0 @ [WarnImportCanceled])
                 else
                   (case replaceEntries importedCommands
                           (nextId, [], [], out0 @ [InfoReplacing]) of
                      Inl e \<Rightarrow> Inl e
                    | Inr (nextId', commandsToWrite, seen, out) \<Rightarrow>
                        Inr (\<lparr>configWrite = Some nextId',
                              commandsWrite = Some ([], commandsToWrite)\<rparr>,
                             out @ [OkImported (length commandsToWrite)]))))
      | Parsed other \<Rightarrow> Inr (noWrites, [ErrImportParse]))"

text \<open>The recorded writes carried out on the store, where every write completes.\<close>

definition completeWrites :: "writes \<Rightarrow> store \<Rightarrow> store" where
  "completeWrites w s =
     (let s1 = (case configWrite w of None \<Rightarrow> s | Some nextId \<Rightarrow> writeConfig nextId s)
      in case commandsWrite w of
           None \<Rightarrow> s1
         | Some (loaded, created) \<Rightarrow> writeCommands_store (loaded @ created) s1)"

text \<open>
  The two files, and the recorded writes carried out on them by \<^verbatim>\<open>writeConfig\<close> and
  \<^verbatim>\<open>writeCommands\<close>, each with the fault that its \<^verbatim>\<open>writeFileSync\<close> meets.
\<close>

record disk =
  recordsFile :: file_state
  configFile :: file_state

definition persist ::
  "write_fault \<Rightarrow> write_fault \<Rightarrow> dir_state \<Rightarrow> writes \<Rightarrow> disk \<Rightarrow> fatal + write_message list \<times> disk"
where
  "persist configFault recordsFault configDir w d =
     (case (case configWrite w of
              None \<Rightarrow> Inr ([], configFile d)
            | Some nextId \<Rightarrow> writeConfig_file configFault configDir nextId (configFile d)) of
        Inl x \<Rightarrow> Inl x
      | Inr (errors1, config') \<Rightarrow>
          (case (case commandsWrite w of
                   None \<Rightarrow> Inr ([], recordsFile d)
                 | Some (loaded, created) \<Rightarrow>
                     writeCommands recordsFault configDir
                       (map loadedObject loaded @ map createdObject created) (recordsFile d)) of
             Inl x \<Rightarrow> Inl x
           | Inr (errors2, records') \<Rightarrow>
               Inr (errors1 @ errors2, \<lparr>recordsFile = records', configFile = config'\<rparr>)))"

text \<open>
  The operations that change the files, with the answers to their prompts, and one run
  of such an operation on the files, where \<open>commands\<close> and \<open>nextId\<close> are what the handler
  read: the end of the process, the exception thrown by the handler before it writes, or
  the lines of the handler, the errors that the write functions reported and the files
  afterwards.
\<close>

datatype operation =
    OpAdd add_response
  | OpDelete bool string
  | OpEdit edit_response string
  | OpImport import_source bool bool

definition writesOf :: "operation \<Rightarrow> cmd list \<Rightarrow> int \<Rightarrow> js_error + writes \<times> message list" where
  "writesOf operation commands nextId = (case operation of
       OpAdd response \<Rightarrow> Inr (handleAddCommand_writes response commands nextId)
     | OpDelete confirm specifier \<Rightarrow> Inr (handleDeleteCommand_writes confirm specifier commands)
     | OpEdit response specifier \<Rightarrow> handleEditCommand_writes response specifier commands
     | OpImport importFile appendMode confirm \<Rightarrow>
         handleImportCommand_writes importFile appendMode confirm commands nextId)"

definition perform ::
  "write_fault \<Rightarrow> write_fault \<Rightarrow> dir_state \<Rightarrow> operation \<Rightarrow> cmd list \<Rightarrow> int \<Rightarrow> disk
     \<Rightarrow> fatal + js_error + message list \<times> write_message list \<times> disk"
where
  "perform configFault recordsFault configDir operation commands nextId d =
     (case writesOf operation commands nextId of
        Inl e \<Rightarrow> Inr (Inl e)
      | Inr (w, out) \<Rightarrow>
          (case persist configFault recordsFault configDir w d of
             Inl x \<Rightarrow> Inl x
           | Inr (errors, d') \<Rightarrow> Inr (Inr (out, errors, d'))))"

text \<open>The record that an object of the records file stands for.\<close>

definition recordOf :: "jsval \<Rightarrow> cmd" where
  "recordOf c =
     \<lparr>id_c = idOf c,
      alias_c = (case getProp c ''alias'' of JStr t \<Rightarrow> Some t | _ \<Rightarrow> None),
      command = (case getProp c ''command'' of JStr t \<Rightarrow> t | _ \<Rightarrow> []),
      comment = (case getProp c ''comment'' of JStr t \<Rightarrow> Some t | _ \<Rightarrow> None)\<rparr>"

section \<open>Evaluation of the string functions\<close>

lemma char_eq_char_of: "(c = char_of (n::nat)) = (take_bit 8 n = of_char c)"
  using char_of_eq_iff [of n c] by auto

lemmas string_eval = char_eq_char_of char_of_eq_iff parseInt_def parseDigits_def digitsValue_def
  digitValue_def isDigit_def isWhiteSpace_def toLowerCase_def lowerChar_def trim_def
  hasSpaceOrColon_def truthy_def

section \<open>The resolver returns the first record that matches\<close>

lemma scanCommands_None:
  "scanCommands i (parseInt sp) (toLowerCase sp) cs = None \<longleftrightarrow> (\<forall>c \<in> set cs. \<not> hit sp c)"
  by (induction cs arbitrary: i)
     (auto simp: hit_def idMatch_def aliasMatch_def truthy_def split: option.splits)

lemma scanCommands_Some:
  "scanCommands i (parseInt sp) (toLowerCase sp) cs = Some (c, k) \<longleftrightarrow>
     (i \<le> k \<and> k - i < length cs \<and> cs ! (k - i) = c \<and> hit sp c
      \<and> (\<forall>j < k - i. \<not> hit sp (cs ! j)))"
proof (induction cs arbitrary: i)
  case Nil
  then show ?case by simp
next
  case (Cons x xs)
  show ?case
  proof (cases "hit sp x")
    case True
    then have "scanCommands i (parseInt sp) (toLowerCase sp) (x # xs) = Some (x, i)"
      by (auto simp: hit_def idMatch_def aliasMatch_def truthy_def split: option.splits)
    moreover have "(i \<le> k \<and> k - i < length (x # xs) \<and> (x # xs) ! (k - i) = c \<and> hit sp c
      \<and> (\<forall>j < k - i. \<not> hit sp ((x # xs) ! j))) \<longleftrightarrow> (c = x \<and> k = i)"
      using True by (cases "k - i") auto
    ultimately show ?thesis by auto
  next
    case False
    then have step: "scanCommands i (parseInt sp) (toLowerCase sp) (x # xs)
        = scanCommands (Suc i) (parseInt sp) (toLowerCase sp) xs"
      by (auto simp: hit_def idMatch_def aliasMatch_def truthy_def split: option.splits)
    have "(i \<le> k \<and> k - i < length (x # xs) \<and> (x # xs) ! (k - i) = c \<and> hit sp c
      \<and> (\<forall>j < k - i. \<not> hit sp ((x # xs) ! j))) \<longleftrightarrow>
      (Suc i \<le> k \<and> k - Suc i < length xs \<and> xs ! (k - Suc i) = c \<and> hit sp c
      \<and> (\<forall>j < k - Suc i. \<not> hit sp (xs ! j)))" (is "?L \<longleftrightarrow> ?R")
    proof
      assume L: ?L
      then have ne: "k \<noteq> i" using False by (cases "k = i") auto
      with L obtain m where m: "k - i = Suc m" by (cases "k - i") auto
      then have km: "k - Suc i = m" by simp
      have "\<forall>j < m. \<not> hit sp (xs ! j)"
      proof (intro allI impI)
        fix j assume "j < m"
        then have "Suc j < k - i" using m by simp
        with L have "\<not> hit sp ((x # xs) ! Suc j)" by blast
        then show "\<not> hit sp (xs ! j)" by simp
      qed
      with L m km ne show ?R by auto
    next
      assume R: ?R
      then obtain m where m: "k - i = Suc m" "k - Suc i = m" by (cases "k - i") auto
      have "\<forall>j < Suc m. \<not> hit sp ((x # xs) ! j)"
      proof (intro allI impI)
        fix j assume "j < Suc m"
        then show "\<not> hit sp ((x # xs) ! j)"
          using R m False by (cases j) auto
      qed
      with R m show ?L by auto
    qed
    with step Cons.IH [of "Suc i"] show ?thesis by simp
  qed
qed


text \<open>
  C2. For every record list and specifier, \<^verbatim>\<open>findCommandByIdOrAlias\<close> returns nothing
  exactly when no record matches by id or by alias, and otherwise returns the record at
  the least index that matches by either criterion, together with that index. There is
  no pass that prefers id matches: if a record matches by alias, a later record matches
  by id and no record before the first one matches, the earlier (alias) record is
  returned.
\<close>

theorem resolve_first_match:
  "(findCommandByIdOrAlias sp cs = None \<longleftrightarrow> (\<forall>c \<in> set cs. \<not> hit sp c))
   \<and> (\<forall>c k. findCommandByIdOrAlias sp cs = Some (c, k) \<longleftrightarrow>
         (k < length cs \<and> cs ! k = c \<and> hit sp c \<and> (\<forall>j < k. \<not> hit sp (cs ! j))))
   \<and> (\<forall>i j. i < j \<and> j < length cs \<and> aliasMatch sp (cs ! i) \<and> idMatch sp (cs ! j)
           \<and> (\<forall>k < i. \<not> hit sp (cs ! k))
         \<longrightarrow> findCommandByIdOrAlias sp cs = Some (cs ! i, i))"
proof (intro conjI allI impI)
  show "findCommandByIdOrAlias sp cs = None \<longleftrightarrow> (\<forall>c \<in> set cs. \<not> hit sp c)"
    unfolding findCommandByIdOrAlias_def by (rule scanCommands_None)
next
  fix c k
  show "findCommandByIdOrAlias sp cs = Some (c, k) \<longleftrightarrow>
         (k < length cs \<and> cs ! k = c \<and> hit sp c \<and> (\<forall>j < k. \<not> hit sp (cs ! j)))"
    unfolding findCommandByIdOrAlias_def using scanCommands_Some [of 0 sp cs c k] by simp
next
  fix i j
  assume h: "i < j \<and> j < length cs \<and> aliasMatch sp (cs ! i) \<and> idMatch sp (cs ! j)
           \<and> (\<forall>k < i. \<not> hit sp (cs ! k))"
  then have "i < length cs" "hit sp (cs ! i)" by (auto simp: hit_def)
  with h show "findCommandByIdOrAlias sp cs = Some (cs ! i, i)"
    unfolding findCommandByIdOrAlias_def using scanCommands_Some [of 0 sp cs "cs ! i" i] by simp
qed

theorem resolve_first_match_witness:
  "aliasMatch ''7'' \<lparr>id_c = 1, alias_c = Some ''7'', command = ''ls'', comment = None\<rparr>
   \<and> idMatch ''7'' \<lparr>id_c = 7, alias_c = None, command = ''pwd'', comment = None\<rparr>
   \<and> findCommandByIdOrAlias ''7''
       [\<lparr>id_c = 1, alias_c = Some ''7'', command = ''ls'', comment = None\<rparr>,
        \<lparr>id_c = 7, alias_c = None, command = ''pwd'', comment = None\<rparr>]
     = Some (\<lparr>id_c = 1, alias_c = Some ''7'', command = ''ls'', comment = None\<rparr>, 0)"
proof -
  let ?a = "\<lparr>id_c = 1, alias_c = Some ''7'', command = ''ls'', comment = None\<rparr>"
  let ?b = "\<lparr>id_c = 7, alias_c = None, command = ''pwd'', comment = None\<rparr>"
  have a: "aliasMatch ''7'' ?a"
    by (simp add: aliasMatch_def string_eval)
  have b: "idMatch ''7'' ?b"
    by (simp add: idMatch_def string_eval)
  have "(0::nat) < 1 \<and> 1 < length [?a, ?b] \<and> aliasMatch ''7'' ([?a, ?b] ! 0)
      \<and> idMatch ''7'' ([?a, ?b] ! 1) \<and> (\<forall>k < (0::nat). \<not> hit ''7'' ([?a, ?b] ! k))"
    using a b by simp
  then have "findCommandByIdOrAlias ''7'' [?a, ?b] = Some ([?a, ?b] ! 0, 0)"
    by (rule resolve_first_match [of "''7''" "[?a, ?b]", THEN conjunct2, THEN conjunct2,
          rule_format])
  with a b show ?thesis by simp
qed

section \<open>Alias uniqueness\<close>

lemma isAliasUnique_set:
  "isAliasUnique a cs ex \<longleftrightarrow>
     (\<not> truthy a \<or> (\<forall>c \<in> set cs. sameAlias a c \<longrightarrow> Some (id_c c) = ex))"
  unfolding isAliasUnique_def sameAlias_def list_ex_iff by auto

text \<open>
  C4. \<^verbatim>\<open>isAliasUnique\<close> is true for an empty or absent alias; for any other alias it is
  true exactly when every record that carries the alias (case-insensitively) has the
  excluded id. In particular, when a record \<open>d\<close> carries the alias and every record
  carrying it has the id of \<open>d\<close>, the answer is false without an excluded id and true when
  the id of \<open>d\<close> is excluded.
\<close>

theorem isAliasUnique_iff:
  "(\<not> truthy a \<longrightarrow> isAliasUnique a cs ex)
   \<and> (truthy a \<longrightarrow>
        (isAliasUnique a cs ex \<longleftrightarrow> (\<forall>c \<in> set cs. sameAlias a c \<longrightarrow> Some (id_c c) = ex)))
   \<and> (truthy a \<and> d \<in> set cs \<and> sameAlias a d
        \<and> (\<forall>c \<in> set cs. sameAlias a c \<longrightarrow> id_c c = id_c d)
        \<longrightarrow> \<not> isAliasUnique a cs None \<and> isAliasUnique a cs (Some (id_c d)))"
proof (intro conjI impI)
  assume "\<not> truthy a"
  then show "isAliasUnique a cs ex" by (simp add: isAliasUnique_set)
next
  assume "truthy a"
  then show "isAliasUnique a cs ex \<longleftrightarrow> (\<forall>c \<in> set cs. sameAlias a c \<longrightarrow> Some (id_c c) = ex)"
    by (simp add: isAliasUnique_set)
next
  assume h: "truthy a \<and> d \<in> set cs \<and> sameAlias a d
        \<and> (\<forall>c \<in> set cs. sameAlias a c \<longrightarrow> id_c c = id_c d)"
  then show "\<not> isAliasUnique a cs None" unfolding isAliasUnique_set by blast
  from h show "isAliasUnique a cs (Some (id_c d))" unfolding isAliasUnique_set by blast
qed

theorem isAliasUnique_iff_witness:
  "truthy (Some ''GS'')
   \<and> sameAlias (Some ''GS'')
       \<lparr>id_c = 3, alias_c = Some ''gs'', command = ''git status'', comment = None\<rparr>
   \<and> \<not> isAliasUnique (Some ''GS'')
       [\<lparr>id_c = 3, alias_c = Some ''gs'', command = ''git status'', comment = None\<rparr>,
        \<lparr>id_c = 4, alias_c = None, command = ''ls'', comment = None\<rparr>] None
   \<and> isAliasUnique (Some ''GS'')
       [\<lparr>id_c = 3, alias_c = Some ''gs'', command = ''git status'', comment = None\<rparr>,
        \<lparr>id_c = 4, alias_c = None, command = ''ls'', comment = None\<rparr>] (Some 3)
   \<and> isAliasUnique None
       [\<lparr>id_c = 3, alias_c = Some ''gs'', command = ''git status'', comment = None\<rparr>] None"
proof -
  let ?d = "\<lparr>id_c = 3, alias_c = Some ''gs'', command = ''git status'', comment = None\<rparr>"
  let ?e = "\<lparr>id_c = 4, alias_c = None, command = ''ls'', comment = None\<rparr>"
  have t: "truthy (Some ''GS'')" by (simp add: truthy_def)
  have s: "sameAlias (Some ''GS'') ?d" by (simp add: sameAlias_def string_eval)
  have n: "\<not> sameAlias (Some ''GS'') ?e" by (simp add: sameAlias_def truthy_def)
  have "truthy (Some ''GS'') \<and> ?d \<in> set [?d, ?e] \<and> sameAlias (Some ''GS'') ?d
     \<and> (\<forall>c \<in> set [?d, ?e]. sameAlias (Some ''GS'') c \<longrightarrow> id_c c = id_c ?d)"
    using t s n by simp
  then have "\<not> isAliasUnique (Some ''GS'') [?d, ?e] None
      \<and> isAliasUnique (Some ''GS'') [?d, ?e] (Some (id_c ?d))"
    by (rule isAliasUnique_iff [THEN conjunct2, THEN conjunct2, THEN mp])
  moreover have "\<not> truthy None" by (simp add: truthy_def)
  then have "isAliasUnique None [?d] None"
    by (rule isAliasUnique_iff [THEN conjunct1, THEN mp])
  ultimately show ?thesis using t s by simp
qed

section \<open>Specifiers with a numeric prefix\<close>

lemma isDigit_plain: "isDigit d \<Longrightarrow> \<not> isWhiteSpace d \<and> d \<noteq> CHR ''-'' \<and> d \<noteq> CHR ''+''"
  by (auto simp: isDigit_def isWhiteSpace_def)

lemma parseDigits_prefix:
  assumes "ds \<noteq> []" "\<forall>d \<in> set ds. isDigit d" "rest = [] \<or> \<not> isDigit (hd rest)"
  shows "parseDigits (ds @ rest) = Some (digitsValue ds)"
proof -
  have "takeWhile isDigit rest = []" using assms(3) by (cases rest) auto
  then have "takeWhile isDigit (ds @ rest) = ds"
    using assms(2) by (simp add: takeWhile_append2)
  then show ?thesis using assms(1) by (simp add: parseDigits_def)
qed

lemma parseInt_prefix:
  assumes "ds \<noteq> []" "\<forall>d \<in> set ds. isDigit d" "rest = [] \<or> \<not> isDigit (hd rest)"
  shows "parseInt (ds @ rest) = Some (digitsValue ds)"
proof -
  obtain d ds' where ds: "ds = d # ds'" using assms(1) by (cases ds) auto
  then have d: "\<not> isWhiteSpace d \<and> d \<noteq> CHR ''-'' \<and> d \<noteq> CHR ''+''"
    using assms(2) isDigit_plain by simp
  then have "parseInt (ds @ rest) = parseDigits (ds @ rest)"
    by (simp add: parseInt_def ds)
  then show ?thesis using parseDigits_prefix [OF assms] by simp
qed

text \<open>
  C10. A specifier that starts with a non-empty run of decimal digits followed by a
  character that is not a digit (such as \<^verbatim>\<open>7abc\<close>) is parsed by \<^verbatim>\<open>parseInt\<close> to the value
  of the digit run. When no record's alias equals the whole specifier and some record
  has that value as its id, \<^verbatim>\<open>findCommandByIdOrAlias\<close> returns the first record with
  that id.
\<close>

theorem resolve_numeric_prefix:
  assumes "ds \<noteq> []" and "\<forall>d \<in> set ds. isDigit d" and "\<not> isDigit c"
    and "\<forall>x \<in> set cs. \<not> aliasMatch (ds @ c # r) x"
    and "\<exists>x \<in> set cs. id_c x = digitsValue ds"
  shows "parseInt (ds @ c # r) = Some (digitsValue ds)
    \<and> (\<exists>x k. findCommandByIdOrAlias (ds @ c # r) cs = Some (x, k)
          \<and> k < length cs \<and> cs ! k = x \<and> id_c x = digitsValue ds
          \<and> (\<forall>j < k. id_c (cs ! j) \<noteq> digitsValue ds))"
proof -
  let ?sp = "ds @ c # r"
  have p: "parseInt ?sp = Some (digitsValue ds)"
    using parseInt_prefix [of ds "c # r"] assms(1-3) by simp
  have hit_iff: "hit ?sp x \<longleftrightarrow> id_c x = digitsValue ds" if "x \<in> set cs" for x
    using that assms(4) p by (auto simp: hit_def idMatch_def)
  from assms(5) have "\<not> (\<forall>x \<in> set cs. \<not> hit ?sp x)" using hit_iff by blast
  then obtain x k where f: "scanCommands 0 (parseInt ?sp) (toLowerCase ?sp) cs = Some (x, k)"
    using scanCommands_None [of 0 ?sp cs] by (cases "scanCommands 0 (parseInt ?sp) (toLowerCase ?sp) cs") auto
  then have k: "k < length cs" "cs ! k = x" "hit ?sp x" "\<forall>j < k. \<not> hit ?sp (cs ! j)"
    using scanCommands_Some [of 0 ?sp cs x k] by auto
  have "id_c x = digitsValue ds" using k hit_iff [of x] by (metis nth_mem)
  moreover have "\<forall>j < k. id_c (cs ! j) \<noteq> digitsValue ds"
  proof (intro allI impI)
    fix j assume "j < k"
    then have "j < length cs" "\<not> hit ?sp (cs ! j)" using k by auto
    then show "id_c (cs ! j) \<noteq> digitsValue ds" using hit_iff [of "cs ! j"] by simp
  qed
  ultimately show ?thesis using p f k by (simp add: findCommandByIdOrAlias_def)
qed

theorem resolve_numeric_prefix_witness:
  "parseInt ''7abc'' = Some 7
   \<and> findCommandByIdOrAlias ''7abc''
       [\<lparr>id_c = 2, alias_c = Some ''abc'', command = ''ls'', comment = None\<rparr>,
        \<lparr>id_c = 7, alias_c = Some ''seven'', command = ''pwd'', comment = None\<rparr>]
     = Some (\<lparr>id_c = 7, alias_c = Some ''seven'', command = ''pwd'', comment = None\<rparr>, 1)"
proof -
  let ?a = "\<lparr>id_c = 2, alias_c = Some ''abc'', command = ''ls'', comment = None\<rparr>"
  let ?b = "\<lparr>id_c = 7, alias_c = Some ''seven'', command = ''pwd'', comment = None\<rparr>"
  have v: "digitsValue ''7'' = 7" by (simp add: string_eval)
  have h1: "''7'' \<noteq> []" "\<forall>d \<in> set ''7''. isDigit d" "\<not> isDigit CHR ''a''"
    by (simp_all add: string_eval)
  have h2: "\<forall>x \<in> set [?a, ?b]. \<not> aliasMatch (''7'' @ CHR ''a'' # ''bc'') x"
    by (simp add: aliasMatch_def string_eval)
  have h3: "\<exists>x \<in> set [?a, ?b]. id_c x = digitsValue ''7''"
    by (simp add: v)
  from resolve_numeric_prefix [OF h1 h2 h3]
  obtain x k where "parseInt ''7abc'' = Some 7"
    and f: "findCommandByIdOrAlias ''7abc'' [?a, ?b] = Some (x, k)"
    and k: "k < length [?a, ?b]" "[?a, ?b] ! k = x" "id_c x = 7"
    using v by auto
  moreover from k have "k = 1" by (cases k) auto
  ultimately show ?thesis by auto
qed

section \<open>Placeholder substitution\<close>

lemma getSubstitution_plain:
  "CHR ''$'' \<notin> set r \<Longrightarrow> getSubstitution m b a r = r"
  by (induction m b a r rule: getSubstitution.induct) auto

lemma fillPlaceholders_Nil: "fillPlaceholders s [] = s"
  by (induction s "[] :: string list" rule: fillPlaceholders.induct) auto

lemma split_None_count: "splitAtPlaceholder s = None \<longleftrightarrow> countPlaceholders s = 0"
  by (induction s rule: splitAtPlaceholder.induct) auto

lemma split_Some_count:
  "splitAtPlaceholder s = Some (b, a) \<Longrightarrow> countPlaceholders s = Suc (countPlaceholders a)"
  by (induction s arbitrary: b rule: splitAtPlaceholder.induct) (auto split: if_splits)

lemma split_Some_fill:
  "splitAtPlaceholder s = Some (b, a) \<Longrightarrow> fillPlaceholders s (x # xs) = b @ x @ fillPlaceholders a xs"
  by (induction s arbitrary: b rule: splitAtPlaceholder.induct) (auto split: if_splits)

lemma split_Cons_other:
  "c \<noteq> CHR ''{'' \<Longrightarrow> splitAtPlaceholder (c # t) = map_option (\<lambda>(b, a). (c # b, a)) (splitAtPlaceholder t)"
  by (cases t) auto

lemma split_no_brace:
  "CHR ''{'' \<notin> set x \<Longrightarrow> splitAtPlaceholder (x @ t) = map_option (\<lambda>(b, a). (x @ b, a)) (splitAtPlaceholder t)"
  by (induction x) (auto simp: split_Cons_other option.map_comp comp_def split_def option.map_ident)

text \<open>Text in front of the first placeholder stays in front when text not starting with a closing brace is put in its place.\<close>

lemma split_before:
  "splitAtPlaceholder s = Some (b, a) \<Longrightarrow> x \<noteq> [] \<Longrightarrow> hd x \<noteq> CHR ''}'' \<Longrightarrow>
   splitAtPlaceholder (b @ x @ t) = map_option (\<lambda>(b', a'). (b @ b', a')) (splitAtPlaceholder (x @ t))"
proof (induction s arbitrary: b rule: splitAtPlaceholder.induct)
  case 1
  then show ?case by simp
next
  case (2 c)
  then show ?case by simp
next
  case (3 c d s)
  show ?case
  proof (cases "c = CHR ''{'' \<and> d = CHR ''}''")
    case True
    with 3 show ?thesis by (simp add: split_def option.map_ident)
  next
    case False
    with "3.prems" obtain b' where b': "splitAtPlaceholder (d # s) = Some (b', a)" "b = c # b'"
      by auto
    have IH: "splitAtPlaceholder (b' @ x @ t)
        = map_option (\<lambda>(b'', a'). (b' @ b'', a')) (splitAtPlaceholder (x @ t))"
      using "3.IH" [OF False b'(1) "3.prems"(2,3)] .
    obtain e rest where e: "b' @ x @ t = e # rest" using "3.prems"(2) by (cases "b' @ x @ t") auto
    have ne: "\<not> (c = CHR ''{'' \<and> e = CHR ''}'')"
    proof (cases b')
      case Nil
      then have "e = hd x" using e "3.prems"(2) by (cases x) auto
      then show ?thesis using "3.prems"(3) by simp
    next
      case (Cons f fs)
      then have "e = f" using e by simp
      moreover have "f = d" using b'(1) Cons by (cases s) (auto split: if_splits)
      ultimately show ?thesis using False by simp
    qed
    have "splitAtPlaceholder (b @ x @ t) = splitAtPlaceholder (c # e # rest)"
      using b'(2) e by simp
    also have "\<dots> = map_option (\<lambda>(b, a). (c # b, a)) (splitAtPlaceholder (e # rest))"
      using ne by auto
    also have "\<dots> = map_option (\<lambda>(b'', a'). (b @ b'', a')) (splitAtPlaceholder (x @ t))"
      using IH e b'(2) by (simp add: option.map_comp comp_def split_def)
    finally show ?thesis .
  qed
qed

lemma split_plain:
  assumes "plainArg x" "splitAtPlaceholder s = Some (b, a)"
  shows "splitAtPlaceholder (b @ x @ t)
    = map_option (\<lambda>(b', a'). (b @ x @ b', a')) (splitAtPlaceholder t)"
proof -
  from assms(1) have x: "x \<noteq> []" "hd x \<noteq> CHR ''}''" "CHR ''{'' \<notin> set x"
    by (cases x; auto simp: plainArg_def list_all_iff)+
  have "splitAtPlaceholder (b @ x @ t)
      = map_option (\<lambda>(b', a'). (b @ b', a')) (splitAtPlaceholder (x @ t))"
    using split_before [OF assms(2) x(1,2)] .
  also have "\<dots> = map_option (\<lambda>(b', a'). (b @ x @ b', a')) (splitAtPlaceholder t)"
    by (simp add: split_no_brace [OF x(3)] option.map_comp comp_def split_def)
  finally show ?thesis .
qed

lemma replacePlaceholder_plain:
  assumes "plainArg x" "splitAtPlaceholder s = Some (b, a)"
  shows "replacePlaceholder s x = b @ x @ a"
proof -
  have "CHR ''$'' \<notin> set x" using assms(1) by (auto simp: plainArg_def list_all_iff)
  then show ?thesis using assms(2) by (simp add: replacePlaceholder_def getSubstitution_plain)
qed

lemma substituteLoop_fill:
  assumes "\<forall>t. splitAtPlaceholder (p @ t) = map_option (\<lambda>(b, a). (p @ b, a)) (splitAtPlaceholder t)"
    and "countPlaceholders s \<le> length args"
    and "\<forall>x \<in> set (take (countPlaceholders s) args). plainArg x"
  shows "substituteLoop (p @ s) args = p @ fillPlaceholders s (take (countPlaceholders s) args)"
  using assms
proof (induction args arbitrary: p s)
  case Nil
  then show ?case by (simp add: fillPlaceholders_Nil)
next
  case (Cons x xs)
  show ?case
  proof (cases "splitAtPlaceholder s")
    case None
    then have "countPlaceholders s = 0" by (simp add: split_None_count)
    moreover have "splitAtPlaceholder (p @ s) = None" using Cons.prems(1) None by simp
    ultimately show ?thesis by (simp add: fillPlaceholders_Nil)
  next
    case (Some ba)
    then obtain b a where ba: "splitAtPlaceholder s = Some (b, a)" by (cases ba) auto
    have cnt: "countPlaceholders s = Suc (countPlaceholders a)" using split_Some_count [OF ba] .
    have px: "plainArg x" using Cons.prems(3) cnt by simp
    have ps: "splitAtPlaceholder (p @ s) = Some (p @ b, a)" using Cons.prems(1) ba by simp
    have rep: "replacePlaceholder (p @ s) x = (p @ b @ x) @ a"
      using replacePlaceholder_plain [OF px ps] by simp
    have pass: "\<forall>t. splitAtPlaceholder ((p @ b @ x) @ t)
        = map_option (\<lambda>(b', a'). ((p @ b @ x) @ b', a')) (splitAtPlaceholder t)"
    proof
      fix t
      have "splitAtPlaceholder (p @ (b @ x @ t))
          = map_option (\<lambda>(b', a'). (p @ b', a')) (splitAtPlaceholder (b @ x @ t))"
        using Cons.prems(1) by blast
      then show "splitAtPlaceholder ((p @ b @ x) @ t)
          = map_option (\<lambda>(b', a'). ((p @ b @ x) @ b', a')) (splitAtPlaceholder t)"
        by (simp add: split_plain [OF px ba] option.map_comp comp_def split_def)
    qed
    have le: "countPlaceholders a \<le> length xs" using Cons.prems(2) cnt by simp
    have pl: "\<forall>y \<in> set (take (countPlaceholders a) xs). plainArg y"
      using Cons.prems(3) cnt by simp
    have "substituteLoop (p @ s) (x # xs) = substituteLoop ((p @ b @ x) @ a) xs"
      using ps rep by simp
    also have "\<dots> = (p @ b @ x) @ fillPlaceholders a (take (countPlaceholders a) xs)"
      using Cons.IH [OF pass le pl] .
    also have "\<dots> = p @ fillPlaceholders s (take (countPlaceholders s) (x # xs))"
      using cnt split_Some_fill [OF ba] by simp
    finally show ?thesis .
  qed
qed

text \<open>
  Where the loop and the specification agree: when the command has \<open>n > 0\<close> placeholders,
  at least \<open>n\<close> arguments are given and each of the first \<open>n\<close> arguments is not empty and
  holds no brace and no dollar sign, the prepared string is the command with its
  placeholders replaced left to right by exactly the first \<open>n\<close> arguments, and further
  arguments cause one warning.
\<close>

lemma placeholderHandling_plain:
  assumes "0 < countPlaceholders s" and "countPlaceholders s \<le> length args"
    and "\<forall>x \<in> set (take (countPlaceholders s) args). plainArg x"
  shows "placeholderHandling s args =
     Inr (fillPlaceholders s (take (countPlaceholders s) args),
          if countPlaceholders s < length args
          then [WarnExtraArguments (length args) (countPlaceholders s)] else [])"
proof -
  have "substituteLoop ([] @ s) args = [] @ fillPlaceholders s (take (countPlaceholders s) args)"
    using assms by (intro substituteLoop_fill) (simp_all add: split_def option.map_ident)
  then show ?thesis using assms(1,2) by (simp add: placeholderHandling_def Let_def)
qed

text \<open>
  The example of the specification: \<^verbatim>\<open>echo {} {}\<close> with \<^verbatim>\<open>a\<close>, \<^verbatim>\<open>b\<close>, \<^verbatim>\<open>c\<close> gives
  \<^verbatim>\<open>echo a b\<close>. The warning carries the number of arguments and the number of
  placeholders; it does not name the argument left over.
\<close>

lemma placeholderHandling_example:
  "placeholderHandling ''echo {} {}'' [''a'', ''b'', ''c'']
     = Inr (''echo a b'', [WarnExtraArguments 3 2])"
  by (simp add: placeholderHandling_def replacePlaceholder_def)

text \<open>
  C1. The claim is that exactly the first \<open>n\<close> arguments are substituted, one for each
  placeholder of the stored command, and that an argument beyond them is never
  substituted. The handler says the same of itself: its comment on the warning reads
  "Warn if extra arguments were provided but not used". Its loop does otherwise. It runs
  while the string includes a placeholder and an argument is left, over all the arguments
  and not only the first \<open>n\<close>, and each round searches the string from its start, with the
  text substituted so far in it. With the stored command \<^verbatim>\<open>echo {} {}\<close> (two placeholders)
  and the arguments \<^verbatim>\<open>{}\<close>, \<^verbatim>\<open>b\<close>, \<^verbatim>\<open>c\<close>, the first round puts the text \<^verbatim>\<open>{}\<close> in the
  place of the first placeholder, the second round finds that text again and replaces it
  by \<^verbatim>\<open>b\<close>, and the third round substitutes the third argument: the command that is run
  is \<^verbatim>\<open>echo b c\<close>, where the first two arguments, one for each placeholder, give
  \<^verbatim>\<open>echo {} b\<close>; and the warning that three arguments were given for two placeholders is
  printed although all three were used.
\<close>

theorem placeholderHandling_rescans:
  "countPlaceholders ''echo {} {}'' = 2
   \<and> placeholderHandling ''echo {} {}'' [''{}'', ''b'', ''c'']
       = Inr (''echo b c'', [WarnExtraArguments 3 2])
   \<and> fillPlaceholders ''echo {} {}'' (take 2 [''{}'', ''b'', ''c'']) = ''echo {} b''
   \<and> handleRunCommand ''/home/u'' True (\<lambda>c. ExecOk) ''1'' [''{}'', ''b'', ''c'']
        [\<lparr>id_c = 1, alias_c = None, command = ''echo {} {}'', comment = None\<rparr>]
       = [Print (WarnExtraArguments 3 2), Print (InfoRunning 1 None ''echo b c''),
          Exec ''echo b c'', Print (OkFinished 1)]"
  by (simp add: placeholderHandling_def replacePlaceholder_def handleRunCommand_def
      findCommandByIdOrAlias_def expandTilde_def string_eval Let_def eval_nat_numeral)

section \<open>Too few arguments\<close>

text \<open>
  C3. When the specifier resolves to a record whose command has \<open>n > 0\<close> placeholders and
  \<open>m < n\<close> arguments are given, the placeholder handling yields no command string but
  the error with \<open>n\<close> and \<open>m\<close>, the run prints that error and nothing else, and no
  command is handed to \<^verbatim>\<open>execSync\<close>.
\<close>

theorem run_insufficient_arguments:
  assumes "specifier \<noteq> []" and "findCommandByIdOrAlias specifier commands = Some (c, i)"
    and "0 < countPlaceholders (command c)"
    and "length args < countPlaceholders (command c)"
  shows "placeholderHandling (command c) args
           = Inl (ErrInsufficientArguments (countPlaceholders (command c)) (length args))
    \<and> handleRunCommand home confirm execSync specifier args commands
           = [Print (ErrInsufficientArguments (countPlaceholders (command c)) (length args))]
    \<and> (\<forall>x. Exec x \<notin> set (handleRunCommand home confirm execSync specifier args commands))"
  using assms by (simp add: handleRunCommand_def placeholderHandling_def)

theorem run_insufficient_arguments_witness:
  "countPlaceholders ''echo {} {}'' = 2
   \<and> handleRunCommand ''/home/u'' True (\<lambda>_. ExecOk) ''1'' [''a'']
       [\<lparr>id_c = 1, alias_c = None, command = ''echo {} {}'', comment = None\<rparr>]
     = [Print (ErrInsufficientArguments 2 1)]"
proof -
  let ?r = "\<lparr>id_c = 1, alias_c = None, command = ''echo {} {}'', comment = None\<rparr>"
  have c: "countPlaceholders ''echo {} {}'' = 2" by simp
  have h: "''1'' \<noteq> []" "findCommandByIdOrAlias ''1'' [?r] = Some (?r, 0)"
    "0 < countPlaceholders (command ?r)" "length [''a''] < countPlaceholders (command ?r)"
    by (simp_all add: findCommandByIdOrAlias_def string_eval)
  show ?thesis
    using run_insufficient_arguments [OF h, of "''/home/u''" True "\<lambda>_. ExecOk"] c by simp
qed

section \<open>Loading the records file\<close>

lemma trim_empty_iff: "trim s = [] \<longleftrightarrow> (\<forall>c \<in> set s. isWhiteSpace c)"
proof
  assume t: "trim s = []"
  show "\<forall>c \<in> set s. isWhiteSpace c"
  proof (rule ccontr)
    assume "\<not> (\<forall>c \<in> set s. isWhiteSpace c)"
    then have ne: "dropWhile isWhiteSpace s \<noteq> []" by (simp add: dropWhile_eq_Nil_conv)
    then have "\<not> isWhiteSpace (hd (dropWhile isWhiteSpace s))" by (rule hd_dropWhile)
    moreover have "hd (dropWhile isWhiteSpace s) \<in> set (rev (dropWhile isWhiteSpace s))"
      using ne by simp
    ultimately have "dropWhile isWhiteSpace (rev (dropWhile isWhiteSpace s)) \<noteq> []"
      by (auto simp: dropWhile_eq_Nil_conv)
    then show False using t by (simp add: trim_def)
  qed
next
  assume "\<forall>c \<in> set s. isWhiteSpace c"
  then have d: "dropWhile isWhiteSpace s = []" by (simp add: dropWhile_eq_Nil_conv)
  show "trim s = []" unfolding trim_def d by simp
qed

text \<open>
  C5. When the configuration directory is there or can be created, \<^verbatim>\<open>readCommands\<close>
  returns the empty list and prints nothing if the file is absent or holds only white
  space; if the content is not white space and does not parse as a JSON array (the
  parser throws, or yields a value that is no array), it prints a diagnostic, first the
  line for corrupt JSON or the line for a value that is no array, and returns the empty
  list; and for every file and every parser it returns a list and never ends the
  process.
\<close>

theorem readCommands_never_fatal_on_content:
  assumes "configDir \<noteq> DirUncreatable"
  shows "(commandsFile = Absent \<or> (\<exists>s. commandsFile = Content s \<and> (\<forall>c \<in> set s. isWhiteSpace c))
            \<longrightarrow> readCommands JSON_parse configDir commandsFile = Inr ([], []))
    \<and> (\<forall>s. commandsFile = Content s \<and> \<not> (\<forall>c \<in> set s. isWhiteSpace c)
            \<and> (\<forall>xs. JSON_parse s \<noteq> Some (JArr xs))
          \<longrightarrow> (\<exists>m ms. readCommands JSON_parse configDir commandsFile = Inr (m # ms, [])
                  \<and> m \<in> {ErrCorruptJson, ErrNotJsonArray}))
    \<and> (\<exists>ms rs. readCommands JSON_parse configDir commandsFile = Inr (ms, rs))"
proof (intro conjI allI impI)
  assume "commandsFile = Absent \<or> (\<exists>s. commandsFile = Content s \<and> (\<forall>c \<in> set s. isWhiteSpace c))"
  then show "readCommands JSON_parse configDir commandsFile = Inr ([], [])"
    using assms by (auto simp: readCommands_def trim_empty_iff)
next
  fix s
  assume h: "commandsFile = Content s \<and> \<not> (\<forall>c \<in> set s. isWhiteSpace c)
            \<and> (\<forall>xs. JSON_parse s \<noteq> Some (JArr xs))"
  then have t: "trim s \<noteq> []" by (simp add: trim_empty_iff)
  show "\<exists>m ms. readCommands JSON_parse configDir commandsFile = Inr (m # ms, [])
                  \<and> m \<in> {ErrCorruptJson, ErrNotJsonArray}"
  proof (cases "JSON_parse s")
    case None
    then show ?thesis using assms h t by (simp add: readCommands_def)
  next
    case (Some v)
    then show ?thesis using assms h t by (cases v) (simp_all add: readCommands_def)
  qed
next
  show "\<exists>ms rs. readCommands JSON_parse configDir commandsFile = Inr (ms, rs)"
    using assms
    by (auto simp: readCommands_def split: file_state.splits option.splits jsval.splits sum.splits)
qed

theorem readCommands_never_fatal_on_content_witness:
  "readCommands (\<lambda>s. if s = ''[]'' then Some (JArr []) else None) DirExists (Content '' '')
     = Inr ([], [])
   \<and> readCommands (\<lambda>s. if s = ''[]'' then Some (JArr []) else None) DirExists
       (Content ''{oops'')
     = Inr ([ErrCorruptJson, WarnReturningEmptyDueToError], [])"
proof -
  let ?parse = "\<lambda>s. if s = ''[]'' then Some (JArr []) else None"
  have d: "DirExists \<noteq> DirUncreatable" by simp
  have "Content '' '' = Absent
      \<or> (\<exists>s. Content '' '' = Content s \<and> (\<forall>c \<in> set s. isWhiteSpace c))"
    by (simp add: isWhiteSpace_def)
  then have a: "readCommands ?parse DirExists (Content '' '') = Inr ([], [])"
    by (rule readCommands_never_fatal_on_content [OF d, THEN conjunct1, THEN mp])
  have "Content ''{oops'' = Content ''{oops'' \<and> \<not> (\<forall>c \<in> set ''{oops''. isWhiteSpace c)
      \<and> (\<forall>xs. ?parse ''{oops'' \<noteq> Some (JArr xs))"
    by (simp add: isWhiteSpace_def)
  then have "\<exists>m ms. readCommands ?parse DirExists (Content ''{oops'') = Inr (m # ms, [])
      \<and> m \<in> {ErrCorruptJson, ErrNotJsonArray}"
    by (rule readCommands_never_fatal_on_content [OF d, THEN conjunct2, THEN conjunct1,
          rule_format])
  then have b: "readCommands ?parse DirExists (Content ''{oops'')
      = Inr ([ErrCorruptJson, WarnReturningEmptyDueToError], [])"
    by (simp add: readCommands_def string_eval)
  from a b show ?thesis by simp
qed

section \<open>The counter stays above the stored ids\<close>

lemma mapRecordDefaults_ids:
  "\<forall>c \<in> set cs. id_c c \<noteq> 0 \<Longrightarrow> map id_c (mapRecordDefaults i cs) = map id_c cs"
  by (induction cs arbitrary: i) (auto simp: recordDefaults_def)

lemma length_mapRecordDefaults [simp]: "length (mapRecordDefaults i cs) = length cs"
  by (induction cs arbitrary: i) auto

lemma ids_readCommands_store:
  assumes "storeInvariant s"
  shows "map id_c (readCommands_store s) = map id_c (fileCommands s)"
  unfolding readCommands_store_def
  using assms by (intro mapRecordDefaults_ids) (auto simp: storeInvariant_def)

lemma read_inv:
  assumes "storeInvariant s" "c \<in> set (readCommands_store s)"
  shows "0 < id_c c \<and> id_c c < readConfig s"
proof -
  have "id_c c \<in> set (map id_c (readCommands_store s))" using assms(2) by simp
  then have "id_c c \<in> id_c ` set (fileCommands s)"
    using ids_readCommands_store [OF assms(1)] by simp
  then show ?thesis using assms(1) by (auto simp: storeInvariant_def)
qed

lemma storeInvariant_write:
  assumes "0 < n" "\<forall>c \<in> set cs. 0 < id_c c \<and> id_c c < n"
  shows "storeInvariant (writeCommands_store cs (writeConfig n s))"
  using assms by (simp add: storeInvariant_def writeCommands_store_def writeConfig_def readConfig_def)

lemma storeInvariant_write_only:
  assumes "storeInvariant s" "\<forall>c \<in> set cs. 0 < id_c c \<and> id_c c < readConfig s"
  shows "storeInvariant (writeCommands_store cs s)"
  using assms by (simp add: storeInvariant_def writeCommands_store_def readConfig_def)

lemma readConfig_writeCommands [simp]: "readConfig (writeCommands_store cs s) = readConfig s"
  by (simp add: writeCommands_store_def readConfig_def)

lemma readConfig_writeConfig [simp]: "readConfig (writeConfig n s) = n"
  by (simp add: writeConfig_def readConfig_def)

lemma add_preserves:
  assumes "storeInvariant s"
  shows "storeInvariant (fst (handleAddCommand r s))
    \<and> readConfig s \<le> readConfig (fst (handleAddCommand r s))"
proof -
  have pos: "0 < readConfig s" using assms by (simp add: storeInvariant_def)
  have old: "\<forall>c \<in> set (readCommands_store s). 0 < id_c c \<and> id_c c < readConfig s + 1"
    using read_inv [OF assms] by fastforce
  have inv1: "storeInvariant (writeConfig (readConfig s + 1) s)"
    using assms by (auto simp: storeInvariant_def writeConfig_def readConfig_def)
  have inv2: "storeInvariant (writeCommands_store (readCommands_store s @ [x])
      (writeConfig (readConfig s + 1) s))" if "id_c x = readConfig s" for x
    using pos old that by (intro storeInvariant_write) auto
  show ?thesis
    using assms inv1 inv2
    by (auto simp: handleAddCommand_def getNextId_def Let_def split: option.splits)
qed

lemma delete_preserves:
  assumes "storeInvariant s"
  shows "storeInvariant (fst (handleDeleteCommand confirm sp s))
    \<and> readConfig s \<le> readConfig (fst (handleDeleteCommand confirm sp s))"
proof -
  have "storeInvariant (writeCommands_store (take k (readCommands_store s)
      @ drop (Suc k) (readCommands_store s)) s)" for k
  proof (rule storeInvariant_write_only [OF assms], rule ballI)
    fix c assume "c \<in> set (take k (readCommands_store s) @ drop (Suc k) (readCommands_store s))"
    then have "c \<in> set (readCommands_store s)"
      by (auto dest: in_set_takeD in_set_dropD)
    then show "0 < id_c c \<and> id_c c < readConfig s" by (rule read_inv [OF assms])
  qed
  then show ?thesis
    using assms by (auto simp: handleDeleteCommand_def Let_def split: option.splits)
qed

lemma find_index:
  "findCommandByIdOrAlias sp cs = Some (c, k) \<Longrightarrow> k < length cs \<and> cs ! k = c"
  unfolding findCommandByIdOrAlias_def using scanCommands_Some [of 0 sp cs c k] by simp

lemma edit_preserves:
  assumes "storeInvariant s" "handleEditCommand r sp s = Inr (s', out)"
  shows "storeInvariant s' \<and> readConfig s \<le> readConfig s'"
proof -
  have upd: "storeInvariant (writeCommands_store ((readCommands_store s)[k := e]) s)"
    if "k < length (readCommands_store s)" "id_c e = id_c (readCommands_store s ! k)" for k e
  proof (rule storeInvariant_write_only [OF assms(1)], rule ballI)
    fix c assume "c \<in> set ((readCommands_store s)[k := e])"
    then have "c = e \<or> c \<in> set (readCommands_store s)"
      by (auto dest: set_update_subset_insert [THEN subsetD])
    moreover have "readCommands_store s ! k \<in> set (readCommands_store s)"
      using that(1) by simp
    ultimately show "0 < id_c c \<and> id_c c < readConfig s"
      using read_inv [OF assms(1)] that(2) by metis
  qed
  show ?thesis
  proof (cases "sp = []")
    case True
    then show ?thesis using assms by (simp add: handleEditCommand_def)
  next
    case False
    show ?thesis
    proof (cases "findCommandByIdOrAlias sp (readCommands_store s)")
      case None
      then show ?thesis using assms False by (simp add: handleEditCommand_def)
    next
      case (Some ck)
      then obtain c k where ck: "findCommandByIdOrAlias sp (readCommands_store s) = Some (c, k)"
        by (cases ck) auto
      then have k: "k < length (readCommands_store s)" "readCommands_store s ! k = c"
        using find_index by auto
      show ?thesis
        using assms False ck upd [OF k(1)] k(2)
        by (auto simp: handleEditCommand_def Let_def split: option.splits if_splits prod.splits)
    qed
  qed
qed

lemma maxCurrentId_aux:
  "m \<le> foldl (\<lambda>m c. if id_c c \<ge> m then id_c c else m) m cs
   \<and> (\<forall>c \<in> set cs. id_c c \<le> foldl (\<lambda>m c. if id_c c \<ge> m then id_c c else m) m cs)"
proof (induction cs arbitrary: m)
  case Nil
  then show ?case by simp
next
  case (Cons x xs)
  let ?m' = "if id_c x \<ge> m then id_c x else m"
  have "?m' \<le> foldl (\<lambda>m c. if id_c c \<ge> m then id_c c else m) ?m' xs"
    and "\<forall>c \<in> set xs. id_c c \<le> foldl (\<lambda>m c. if id_c c \<ge> m then id_c c else m) ?m' xs"
    using Cons.IH [of ?m'] by auto
  then show ?case by auto
qed

lemma maxCurrentId_bound:
  "0 \<le> maxCurrentId cs \<and> (\<forall>c \<in> set cs. id_c c \<le> maxCurrentId cs)"
  unfolding maxCurrentId_def using maxCurrentId_aux [of 0 cs] by simp

lemma firstNewId_bound:
  "0 < firstNewId s \<and> readConfig s \<le> firstNewId s
   \<and> (\<forall>c \<in> set (readCommands_store s). id_c c < firstNewId s)"
  using maxCurrentId_bound [of "readCommands_store s"] by (auto simp: firstNewId_def)

section \<open>The import loops\<close>

lemma toLowerCase_Nil_iff [simp]: "toLowerCase a = [] \<longleftrightarrow> a = []"
  by (simp add: toLowerCase_def)

lemma aliasesLower_set:
  "aliasesLower cs = Inr ls \<Longrightarrow>
     toLowerCase t \<in> set ls \<longleftrightarrow> (\<exists>c \<in> set cs. sameAlias (Some t) c)"
proof (induction cs arbitrary: ls)
  case Nil
  then show ?case by simp
next
  case (Cons x xs)
  then obtain a ls' where a: "alias_c x = Some a" "aliasesLower xs = Inr ls'"
    "ls = (if toLowerCase a = [] then ls' else toLowerCase a # ls')"
    by (auto split: option.splits sum.splits)
  have "sameAlias (Some t) x \<longleftrightarrow> a \<noteq> [] \<and> toLowerCase a = toLowerCase t"
    using a(1) by (simp add: sameAlias_def truthy_def)
  then show ?case using Cons.IH [OF a(2)] a(3) by auto
qed

lemma appendEntry_spec:
  assumes "appendEntry e (n, cs, out) = Inr (n', cs', out')"
  shows "n' = n + 1 \<and> set out \<subseteq> set out' \<and> (\<exists>x. cs' = cs @ [x] \<and> importedAs e cs out' n x)"
proof (cases "jsTruthy (getProp e ''alias'')")
  case False
  then have "keptAlias e cs = None" by (cases "getProp e ''alias''") (auto simp: keptAlias_def)
  then show ?thesis
    using assms False by (auto simp: appendEntry_def importedAs_def Let_def split: sum.splits)
next
  case True
  from assms True obtain cm a ls where
    cm: "entryComment e = Inr cm" and a: "getProp e ''alias'' = JStr a"
    and ls: "aliasesLower cs = Inr ls"
    by (auto simp: appendEntry_def Let_def split: sum.splits jsval.splits)
  have ne: "a \<noteq> []" using True a by simp
  have mem: "toLowerCase (trim a) \<in> set ls \<longleftrightarrow> \<not> list_all (\<lambda>c. \<not> sameAlias (Some (trim a)) c) cs"
    using aliasesLower_set [OF ls, of "trim a"] by (auto simp: list_all_iff)
  show ?thesis
  proof (cases "\<not> hasSpaceOrColon (trim a) \<and> toLowerCase (trim a) \<notin> set ls")
    case True
    then have "keptAlias e cs = Some (trim a)" using a ne mem by (simp add: keptAlias_def)
    then show ?thesis
      using assms \<open>jsTruthy (getProp e ''alias'')\<close> cm a ls True
      by (auto simp: appendEntry_def importedAs_def Let_def)
  next
    case False
    then have "keptAlias e cs = None" using a ne mem by (auto simp: keptAlias_def)
    then show ?thesis
      using assms \<open>jsTruthy (getProp e ''alias'')\<close> cm a ls False
      by (auto simp: appendEntry_def importedAs_def Let_def)
  qed
qed

lemma importedAs_mono: "importedAs e cs out n x \<Longrightarrow> set out \<subseteq> set out' \<Longrightarrow> importedAs e cs out' n x"
  by (auto simp: importedAs_def)

lemma appendEntries_spec:
  "appendEntries es (n, cs, out) = Inr (n', cs', out') \<Longrightarrow>
   \<exists>news. cs' = cs @ news \<and> length news = length es \<and> n' = n + int (length es)
     \<and> set out \<subseteq> set out'
     \<and> (\<forall>i < length es. importedAs (es ! i) (cs @ take i news) out' (n + int i) (news ! i))"
proof (induction es arbitrary: n cs out)
  case Nil
  then show ?case by simp
next
  case (Cons e es)
  from Cons.prems obtain n1 cs1 out1 where
    s1: "appendEntry e (n, cs, out) = Inr (n1, cs1, out1)"
    and r: "appendEntries es (n1, cs1, out1) = Inr (n', cs', out')"
    by (auto split: sum.splits)
  from appendEntry_spec [OF s1] obtain x where
    x: "n1 = n + 1" "cs1 = cs @ [x]" "set out \<subseteq> set out1" "importedAs e cs out1 n x"
    by blast
  from Cons.IH [OF r] obtain news where
    n: "cs' = cs1 @ news" "length news = length es" "n' = n1 + int (length es)"
      "set out1 \<subseteq> set out'"
    and all: "\<And>i. i < length es \<Longrightarrow>
        importedAs (es ! i) (cs1 @ take i news) out' (n1 + int i) (news ! i)"
    by blast
  have "importedAs ((e # es) ! i) (cs @ take i (x # news)) out' (n + int i) ((x # news) ! i)"
    if i: "i < length (e # es)" for i
  proof (cases i)
    case 0
    then show ?thesis using importedAs_mono [OF x(4) n(4)] by simp
  next
    case (Suc j)
    then have "j < length es" using i by simp
    from all [OF this] show ?thesis using x(1,2) Suc by (simp add: add.assoc)
  qed
  then show ?case using n x by (intro exI [of _ "x # news"]) auto
qed

lemma replaceEntry_ids:
  assumes "replaceEntry e (n, cs, seen, out) = Inr (n', cs', seen', out')"
  shows "n' = n + 1 \<and> (\<exists>x. cs' = cs @ [x] \<and> id_c x = n)"
  using assms
  by (auto simp: replaceEntry_def Let_def split: sum.splits jsval.splits if_splits)

lemma replaceEntries_ids:
  "replaceEntries es (n, cs, seen, out) = Inr (n', cs', seen', out') \<Longrightarrow>
   n \<le> n' \<and> (\<forall>c \<in> set cs'. c \<in> set cs \<or> (n \<le> id_c c \<and> id_c c < n'))"
proof (induction es arbitrary: n cs seen out)
  case Nil
  then show ?case by simp
next
  case (Cons e es)
  from Cons.prems obtain n1 cs1 seen1 out1 where
    s1: "replaceEntry e (n, cs, seen, out) = Inr (n1, cs1, seen1, out1)"
    and r: "replaceEntries es (n1, cs1, seen1, out1) = Inr (n', cs', seen', out')"
    by (auto split: sum.splits)
  from replaceEntry_ids [OF s1] obtain x where x: "n1 = n + 1" "cs1 = cs @ [x]" "id_c x = n"
    by blast
  from Cons.IH [OF r] have "n1 \<le> n'"
    and "\<forall>c \<in> set cs'. c \<in> set cs1 \<or> (n1 \<le> id_c c \<and> id_c c < n')" by auto
  then show ?case using x by auto
qed

lemma import_preserves:
  assumes inv: "storeInvariant s" and run: "handleImportCommand src app confirm s = Inr (s', out)"
  shows "storeInvariant s' \<and> readConfig s \<le> readConfig s'"
proof -
  note b = firstNewId_bound [of s]
  have app_case: "storeInvariant (writeCommands_store cs' (writeConfig n' s))
      \<and> readConfig s \<le> readConfig (writeCommands_store cs' (writeConfig n' s))"
    if "appendEntries es (firstNewId s, readCommands_store s, o1) = Inr (n', cs', o2)"
    for es o1 n' cs' o2
  proof -
    from appendEntries_spec [OF that] obtain news where
      n: "cs' = readCommands_store s @ news" "length news = length es"
        "n' = firstNewId s + int (length es)"
      and all: "\<And>i. i < length es \<Longrightarrow> importedAs (es ! i)
          (readCommands_store s @ take i news) o2 (firstNewId s + int i) (news ! i)"
      by blast
    have "0 < id_c c \<and> id_c c < n'" if "c \<in> set cs'" for c
    proof (cases "c \<in> set (readCommands_store s)")
      case True
      then show ?thesis using read_inv [OF inv True] b n(3) by auto
    next
      case False
      then have "c \<in> set news" using that n(1) by auto
      then obtain i where i: "i < length news" "news ! i = c" by (auto simp: in_set_conv_nth)
      then have "id_c c = firstNewId s + int i" using all [of i] n(2) by (simp add: importedAs_def)
      then show ?thesis using b n(2,3) i(1) by auto
    qed
    moreover have "0 < n'" using b n(3) by auto
    ultimately have "storeInvariant (writeCommands_store cs' (writeConfig n' s))"
      by (intro storeInvariant_write) auto
    then show ?thesis using b n(3) by simp
  qed
  have rep_case: "storeInvariant (writeCommands_store cs' (writeConfig n' s))
      \<and> readConfig s \<le> readConfig (writeCommands_store cs' (writeConfig n' s))"
    if "replaceEntries es (firstNewId s, [], [], o1) = Inr (n', cs', seen', o2)"
    for es o1 n' cs' seen' o2
  proof -
    from replaceEntries_ids [OF that] have le: "firstNewId s \<le> n'"
      and ids: "\<forall>c \<in> set cs'. firstNewId s \<le> id_c c \<and> id_c c < n'" by auto
    have "storeInvariant (writeCommands_store cs' (writeConfig n' s))"
      using b le ids by (intro storeInvariant_write) auto
    then show ?thesis using b le by simp
  qed
  show ?thesis
  proof (cases src)
    case NotAFile
    then show ?thesis using inv run by (simp add: handleImportCommand_def)
  next
    case Unparsable
    then show ?thesis using inv run by (simp add: handleImportCommand_def)
  next
    case (Parsed v)
    show ?thesis
    proof (cases "\<exists>entries. v = JArr entries \<and> filter validEntry entries \<noteq> []")
      case False
      then have "s' = s" using run Parsed
        by (cases v) (auto simp: handleImportCommand_def Let_def split: if_splits)
      then show ?thesis using inv by simp
    next
      case True
      then obtain entries where v: "v = JArr entries" "filter validEntry entries \<noteq> []" by blast
      show ?thesis
      proof (cases app)
        case True
        with run Parsed v obtain n' cs' o2 where
          "appendEntries (filter validEntry entries)
             (firstNewId s, readCommands_store s,
              [InfoFound (length (filter validEntry entries))] @ [InfoAppending])
           = Inr (n', cs', o2)"
          and "s' = writeCommands_store cs' (writeConfig n' s)"
          by (auto simp: handleImportCommand_def Let_def split: sum.splits)
        then show ?thesis using app_case by blast
      next
        case False
        show ?thesis
        proof (cases confirm)
          case False
          then have "s' = s" using run Parsed v \<open>\<not> app\<close>
            by (auto simp: handleImportCommand_def Let_def)
          then show ?thesis using inv by simp
        next
          case True
          with run Parsed v \<open>\<not> app\<close> obtain n' cs' seen' o2 where
            "replaceEntries (filter validEntry entries)
               (firstNewId s, [], [],
                [InfoFound (length (filter validEntry entries))] @ [InfoReplacing])
             = Inr (n', cs', seen', o2)"
            and "s' = writeCommands_store cs' (writeConfig n' s)"
            by (auto simp: handleImportCommand_def Let_def split: sum.splits)
          then show ?thesis using rep_case by blast
        qed
      qed
    qed
  qed
qed

lemma step_preserves:
  assumes "storeInvariant s" "step s s'"
  shows "storeInvariant s' \<and> readConfig s \<le> readConfig s'"
  using assms(2,1)
  by (induction rule: step.induct)
     (auto dest: add_preserves delete_preserves edit_preserves import_preserves)

lemma storeInvariant_initial: "storeInvariant initialStore"
  by (simp add: storeInvariant_def initialStore_def readConfig_def)

text \<open>
  From the empty configuration directory, with every write completing, the counter stays
  above every stored id.
\<close>

lemma reachableFromEmpty_invariant: "reachableFromEmpty s \<Longrightarrow> storeInvariant s"
  by (induction rule: reachableFromEmpty.induct)
     (auto simp: storeInvariant_initial dest: step_preserves)

lemmas store_eval = handleAddCommand_def getNextId_def readConfig_def writeConfig_def
  readCommands_store_def recordDefaults_def writeCommands_store_def trimOrFalse_def
  isAliasUnique_def initialStore_def Let_def handleImportCommand_def validEntry_def
  entryCommand_def entryComment_def appendEntry_def replaceEntry_def firstNewId_def
  maxCurrentId_def handleDeleteCommand_def findCommandByIdOrAlias_def

text \<open>
  The import handler does not rely on the counter being above the stored ids: it starts
  its new ids at \<open>firstNewId\<close>, the larger of the counter and the largest id read plus one
  ("Make sure nextId is greater than any existing ID"). Whatever the store was, an
  import that writes leaves the counter above every stored id, and not below where it
  was.
\<close>

lemma import_lifts_counter:
  assumes run: "handleImportCommand (Parsed (JArr entries)) app confirm s = Inr (s', out)"
    and wrote: "filter validEntry entries \<noteq> []" "app \<or> confirm"
  shows "readConfig s \<le> readConfig s' \<and> (\<forall>c \<in> set (fileCommands s'). id_c c < readConfig s')"
proof -
  note b = firstNewId_bound [of s]
  let ?vs = "filter validEntry entries"
  have fin: "readConfig s \<le> readConfig (writeCommands_store cs' (writeConfig n' s))
      \<and> (\<forall>c \<in> set (fileCommands (writeCommands_store cs' (writeConfig n' s))). id_c c < n')"
    if "firstNewId s \<le> n'" "\<forall>c \<in> set cs'. id_c c < n'" for cs' n'
    using that b by (auto simp: writeCommands_store_def writeConfig_def readConfig_def)
  show ?thesis
  proof (cases app)
    case True
    with run wrote obtain n' cs' o2 where
      ap: "appendEntries ?vs (firstNewId s, readCommands_store s,
             [InfoFound (length ?vs)] @ [InfoAppending]) = Inr (n', cs', o2)"
      and s': "s' = writeCommands_store cs' (writeConfig n' s)"
      by (auto simp: handleImportCommand_def Let_def split: sum.splits)
    from appendEntries_spec [OF ap] obtain news where
      n: "cs' = readCommands_store s @ news" "length news = length ?vs"
        "n' = firstNewId s + int (length ?vs)"
      and all: "\<And>i. i < length ?vs \<Longrightarrow> importedAs (?vs ! i)
          (readCommands_store s @ take i news) o2 (firstNewId s + int i) (news ! i)"
      by blast
    have "id_c c < n'" if "c \<in> set cs'" for c
    proof (cases "c \<in> set (readCommands_store s)")
      case True
      then show ?thesis using b n(3) by auto
    next
      case False
      then have "c \<in> set news" using that n(1) by auto
      then obtain i where i: "i < length news" "news ! i = c" by (auto simp: in_set_conv_nth)
      then have "id_c c = firstNewId s + int i" using all [of i] n(2) by (simp add: importedAs_def)
      then show ?thesis using n(2,3) i(1) by auto
    qed
    then show ?thesis using fin [of n' cs'] n(3) s' by simp
  next
    case False
    with run wrote obtain n' cs' seen' o2 where
      rp: "replaceEntries ?vs (firstNewId s, [], [],
             [InfoFound (length ?vs)] @ [InfoReplacing]) = Inr (n', cs', seen', o2)"
      and s': "s' = writeCommands_store cs' (writeConfig n' s)"
      by (auto simp: handleImportCommand_def Let_def split: sum.splits)
    from replaceEntries_ids [OF rp] have "firstNewId s \<le> n'"
      and "\<forall>c \<in> set cs'. firstNewId s \<le> id_c c \<and> id_c c < n'" by auto
    then show ?thesis using fin [of n' cs'] s' by simp
  qed
qed

text \<open>
  C6. The claim is that the counter is above the id of every stored record in every
  persisted state, and that every operation that creates records keeps it so. The
  import handler sees to it, as the lemma above says. The add handler does not: its
  \<^verbatim>\<open>getNextId\<close> hands out the counter as it finds it and never looks at the stored ids.
  The two disagree on the records file of the earlier version of the program, which holds
  records without id and comes with no counter file; \<^verbatim>\<open>readCommands\<close> supports it
  ("Assign basic ID if missing (for migration)") and gives the records the ids 1, 2, ...
  by position, and the counter that is not there reads as 1. On such a file with two
  records the first add gives the new record the id 1, which the first record has, and
  leaves the counter at 2, which is the id of the second record: the counter is not above
  the largest stored id and an id is held twice. A record without id is a record with
  the id 0 here, the falsy id.
\<close>

theorem legacy_add_reuses_id:
  "readCommands
     (\<lambda>text. Some (JArr [JObj [(''command'', JStr ''ls''), (''comment'', JBool False)],
                          JObj [(''command'', JStr ''pwd''), (''comment'', JBool False)]]))
     DirExists (Content ''[ ... ]'')
   = Inr ([], map loadedObject
        [\<lparr>id_c = 1, alias_c = None, command = ''ls'', comment = None\<rparr>,
         \<lparr>id_c = 2, alias_c = None, command = ''pwd'', comment = None\<rparr>])
   \<and> readCommands_store \<lparr>fileCommands =
        [\<lparr>id_c = 0, alias_c = None, command = ''ls'', comment = None\<rparr>,
         \<lparr>id_c = 0, alias_c = None, command = ''pwd'', comment = None\<rparr>], fileNextId = None\<rparr>
     = [\<lparr>id_c = 1, alias_c = None, command = ''ls'', comment = None\<rparr>,
        \<lparr>id_c = 2, alias_c = None, command = ''pwd'', comment = None\<rparr>]
   \<and> handleAddCommand \<lparr>r_command = Some ''date'', r_alias = Some '''', r_comment = Some ''''\<rparr>
       \<lparr>fileCommands =
         [\<lparr>id_c = 0, alias_c = None, command = ''ls'', comment = None\<rparr>,
          \<lparr>id_c = 0, alias_c = None, command = ''pwd'', comment = None\<rparr>], fileNextId = None\<rparr>
     = (\<lparr>fileCommands =
         [\<lparr>id_c = 1, alias_c = None, command = ''ls'', comment = None\<rparr>,
          \<lparr>id_c = 1, alias_c = None, command = ''date'', comment = None\<rparr>,
          \<lparr>id_c = 2, alias_c = None, command = ''pwd'', comment = None\<rparr>],
         fileNextId = Some 2\<rparr>,
        [OkAdded 1 None])
   \<and> readConfig \<lparr>fileCommands =
         [\<lparr>id_c = 1, alias_c = None, command = ''ls'', comment = None\<rparr>,
          \<lparr>id_c = 1, alias_c = None, command = ''date'', comment = None\<rparr>,
          \<lparr>id_c = 2, alias_c = None, command = ''pwd'', comment = None\<rparr>],
         fileNextId = Some 2\<rparr> = 2"
  by (simp add: store_eval string_eval truthy_def readCommands_def withDefaults_def
      nullish_def loadedObject_def optionalString_def trim_def isWhiteSpace_def)

section \<open>Import in append mode\<close>

text \<open>
  What an import in append mode does when it runs to its end. The number of stored
  records grows by the number of entries that pass the filter of the handler: the
  entries that are not falsy and whose command is a string. The file then holds, sorted
  by id, the records read before and one new record for each such entry, in order, with
  the ids \<open>firstNewId\<close>, \<open>firstNewId + 1\<close>, ... above every existing id, the trimmed
  command, and as alias the trimmed alias of the entry when that has no white space and
  no colon and is carried, case-insensitively, neither by an existing record nor by a
  record added earlier in the batch; otherwise the record has no alias, and when the
  entry asked for one the warning for it is printed.
\<close>

lemma import_append_counts:
  assumes "handleImportCommand (Parsed (JArr entries)) True confirm s = Inr (s', out)"
  shows "length (fileCommands s') = length (fileCommands s) + length (filter validEntry entries)
    \<and> (filter validEntry entries \<noteq> [] \<longrightarrow>
        (\<exists>news. fileCommands s' = sort_key id_c (readCommands_store s @ news)
           \<and> length news = length (filter validEntry entries)
           \<and> (\<forall>c \<in> set (readCommands_store s). id_c c < firstNewId s)
           \<and> (\<forall>i < length news.
                 importedAs (filter validEntry entries ! i) (readCommands_store s @ take i news)
                   out (firstNewId s + int i) (news ! i))))"
proof (cases "filter validEntry entries = []")
  case True
  then have "s' = s" using assms by (simp add: handleImportCommand_def)
  then show ?thesis using True by simp
next
  case False
  let ?vs = "filter validEntry entries"
  from assms False obtain n' cs' o2 where
    ap: "appendEntries ?vs (firstNewId s, readCommands_store s,
           [InfoFound (length ?vs)] @ [InfoAppending]) = Inr (n', cs', o2)"
    and s': "s' = writeCommands_store cs' (writeConfig n' s)"
    and out: "out = o2 @ [OkAppended (length ?vs), InfoTotal (length cs')]"
    by (auto simp: handleImportCommand_def Let_def split: sum.splits)
  from appendEntries_spec [OF ap] obtain news where
    n: "cs' = readCommands_store s @ news" "length news = length ?vs"
    and all: "\<And>i. i < length ?vs \<Longrightarrow> importedAs (?vs ! i)
        (readCommands_store s @ take i news) o2 (firstNewId s + int i) (news ! i)"
    by blast
  have f: "fileCommands s' = sort_key id_c (readCommands_store s @ news)"
    using s' n(1) by (simp add: writeCommands_store_def writeConfig_def)
  have len: "length (fileCommands s') = length (fileCommands s) + length ?vs"
    using f n(2) by (simp add: readCommands_store_def)
  have imp: "\<forall>i < length news. importedAs (?vs ! i) (readCommands_store s @ take i news)
      out (firstNewId s + int i) (news ! i)"
  proof (intro allI impI)
    fix i assume "i < length news"
    then have "importedAs (?vs ! i) (readCommands_store s @ take i news) o2
        (firstNewId s + int i) (news ! i)" using all n(2) by simp
    then show "importedAs (?vs ! i) (readCommands_store s @ take i news) out
        (firstNewId s + int i) (news ! i)"
      by (rule importedAs_mono) (auto simp: out)
  qed
  have "\<forall>c \<in> set (readCommands_store s). id_c c < firstNewId s"
    using firstNewId_bound [of s] by simp
  with f n(2) imp len show ?thesis by blast
qed

text \<open>
  C7. The claim is that every import in append mode adds each valid entry, so that the
  number of records grows by the number of valid entries, and that an alias is checked
  against the existing aliases and those assigned earlier in the batch. The handler says
  the same of itself ("Check for conflicts with existing AND newly added aliases in this
  batch"), but it collects the aliases with \<^verbatim>\<open>cmd.alias?.toLowerCase()\<close>, and a record
  without alias holds \<^verbatim>\<open>false\<close>, which the optional call does not skip: the call throws a
  \<^verbatim>\<open>TypeError\<close>. The collection over the existing records runs before the first entry is
  looked at. So from the empty configuration directory, after one command was added
  without alias, the import in append mode of a file with one entry, whose command is
  \<^verbatim>\<open>pwd\<close>, throws before anything is written: no record is added, where the claim says
  the number of records grows by one.
\<close>

theorem import_append_throws:
  "handleAddCommand \<lparr>r_command = Some ''ls'', r_alias = Some '''', r_comment = Some ''''\<rparr>
       initialStore
     = (\<lparr>fileCommands = [\<lparr>id_c = 1, alias_c = None, command = ''ls'', comment = None\<rparr>],
         fileNextId = Some 2\<rparr>, [OkAdded 1 None])
   \<and> handleImportCommand (Parsed (JArr [JObj [(''command'', JStr ''pwd'')]])) True False
       \<lparr>fileCommands = [\<lparr>id_c = 1, alias_c = None, command = ''ls'', comment = None\<rparr>],
        fileNextId = Some 2\<rparr>
     = Inl TypeError
   \<and> filter hasNonEmptyCommand [JObj [(''command'', JStr ''pwd'')]]
     = [JObj [(''command'', JStr ''pwd'')]]"
  by (simp add: store_eval string_eval hasNonEmptyCommand_def)

text \<open>
  The same call is made on the records added earlier in the batch when an entry asks for
  an alias: a batch in which an entry without alias, or one whose alias was dropped,
  comes before an entry with an alias throws too, even into the empty store. And the
  comment of an entry is trimmed through an optional call as well, which does not skip
  the \<^verbatim>\<open>false\<close> that the export writes for a record without comment.
\<close>

lemma import_append_batch_throws:
  "handleImportCommand (Parsed (JArr [JObj [(''command'', JStr ''ls'')],
      JObj [(''command'', JStr ''pwd''), (''alias'', JStr ''p'')]])) True False initialStore
     = Inl TypeError"
  by (simp add: store_eval string_eval)

lemma import_comment_false_throws:
  "handleImportCommand
     (Parsed (JArr [JObj [(''command'', JStr ''pwd''), (''comment'', JBool False)]]))
     False True initialStore = Inl TypeError"
  by (simp add: store_eval string_eval)

text \<open>
  The import does run to its end, for one, when every existing record has an alias and
  the batch is a single entry that passes the filter, with a comment that is a string,
  \<^verbatim>\<open>null\<close> or not there and an alias that is a string or falsy.
\<close>

lemma aliasesLower_total:
  "\<forall>c \<in> set cs. alias_c c \<noteq> None \<Longrightarrow> \<exists>ls. aliasesLower cs = Inr ls"
  by (induction cs) auto

lemma import_append_single_completes:
  assumes "\<forall>c \<in> set (readCommands_store s). alias_c c \<noteq> None" and "validEntry e"
    and "entryComment e = Inr cm"
    and "(\<exists>a. getProp e ''alias'' = JStr a) \<or> \<not> jsTruthy (getProp e ''alias'')"
  shows "\<exists>s' out. handleImportCommand (Parsed (JArr [e])) True confirm s = Inr (s', out)"
proof -
  from aliasesLower_total [OF assms(1)] obtain ls where
    ls: "aliasesLower (readCommands_store s) = Inr ls" by blast
  have "\<exists>acc. appendEntry e (n, readCommands_store s, out0) = Inr acc" for n out0
    using assms(3,4) ls by (auto simp: appendEntry_def Let_def)
  then obtain n' cs' out' where
    "appendEntry e (firstNewId s, readCommands_store s, [InfoFound 1] @ [InfoAppending])
       = Inr (n', cs', out')"
    by (metis prod_cases3)
  then show ?thesis using assms(2) ls by (simp add: handleImportCommand_def)
qed

text \<open>
  The filter of the handler asks for a command that is a string; it does not ask, as the
  prompt of the add handler does, that the command is not empty. An entry whose command
  is the empty string is imported.
\<close>

lemma import_append_empty_command:
  "handleImportCommand (Parsed (JArr [JObj [(''command'', JStr '''')]])) True False initialStore
     = Inr (\<lparr>fileCommands = [\<lparr>id_c = 1, alias_c = None, command = [], comment = None\<rparr>],
            fileNextId = Some 2\<rparr>,
          [InfoFound 1, InfoAppending, OkAppended 1, InfoTotal 1])
   \<and> filter hasNonEmptyCommand [JObj [(''command'', JStr '''')]] = []"
  by (simp add: store_eval string_eval hasNonEmptyCommand_def)

section \<open>Create, then resolve\<close>

lemma digit_char: "d < 10 \<Longrightarrow> isDigit (char_of (48 + d :: nat)) \<and> digitValue (char_of (48 + d :: nat)) = int d"
  by (auto simp: isDigit_def digitValue_def)

lemma digitsValue_snoc: "digitsValue (ds @ [c]) = 10 * digitsValue ds + digitValue c"
  by (simp add: digitsValue_def)

lemma digitsOfNat_props:
  "digitsOfNat n \<noteq> [] \<and> (\<forall>c \<in> set (digitsOfNat n). isDigit c)
   \<and> digitsValue (digitsOfNat n) = int n"
proof (induction n rule: digitsOfNat.induct)
  case (1 n)
  show ?case
  proof (cases "n < 10")
    case True
    then show ?thesis
      using digit_char [of n] by (simp add: digitsOfNat.simps [of n] digitsValue_def)
  next
    case False
    have m: "n mod 10 < 10" by simp
    from False 1 have IH: "digitsOfNat (n div 10) \<noteq> []"
      "\<forall>c \<in> set (digitsOfNat (n div 10)). isDigit c"
      "digitsValue (digitsOfNat (n div 10)) = int (n div 10)" by auto
    have "digitsValue (digitsOfNat n) = 10 * int (n div 10) + int (n mod 10)"
      using False IH(3) digit_char [OF m]
      by (simp add: digitsOfNat.simps [of n] digitsValue_snoc)
    also have "\<dots> = int n" by (simp add: zmod_int zdiv_int)
    finally show ?thesis
      using False IH digit_char [OF m] by (simp add: digitsOfNat.simps [of n])
  qed
qed

lemma parseInt_stringOfInt: "parseInt (stringOfInt i) = Some i"
proof (cases "i < 0")
  case True
  let ?ds = "digitsOfNat (nat (- i))"
  have "parseDigits (?ds @ []) = Some (digitsValue ?ds)"
    using digitsOfNat_props [of "nat (- i)"] by (intro parseDigits_prefix) auto
  then have "parseDigits ?ds = Some (int (nat (- i)))"
    using digitsOfNat_props [of "nat (- i)"] by simp
  then show ?thesis using True by (simp add: stringOfInt_def parseInt_def isWhiteSpace_def)
next
  case False
  let ?ds = "digitsOfNat (nat i)"
  have "parseInt (?ds @ []) = Some (digitsValue ?ds)"
    using digitsOfNat_props [of "nat i"] by (intro parseInt_prefix) auto
  then show ?thesis using False digitsOfNat_props [of "nat i"] by (simp add: stringOfInt_def)
qed

lemma recordDefaults_idem:
  "id_c x \<noteq> 0 \<Longrightarrow> recordDefaults i (recordDefaults j x) = recordDefaults j x"
  by (cases "alias_c x"; cases "comment x"; simp add: recordDefaults_def truthy_def)

lemma recordDefaults_index:
  "id_c x \<noteq> 0 \<Longrightarrow> recordDefaults i x = recordDefaults 0 x"
  by (simp add: recordDefaults_def)

lemma mapRecordDefaults_map:
  "\<forall>c \<in> set cs. id_c c \<noteq> 0 \<Longrightarrow> mapRecordDefaults i cs = map (recordDefaults 0) cs"
proof (induction cs arbitrary: i)
  case Nil
  then show ?case by simp
next
  case (Cons a cs)
  then show ?case using recordDefaults_index [of a i] by simp
qed

lemma id_recordDefaults: "id_c x \<noteq> 0 \<Longrightarrow> id_c (recordDefaults i x) = id_c x"
  by (simp add: recordDefaults_def)

text \<open>Reading back what was just written, when all ids are not zero.\<close>

lemma set_read_after_write:
  assumes "storeInvariant s" "id_c x \<noteq> 0" "recordDefaults 0 x = x"
  shows "set (readCommands_store (writeCommands_store (readCommands_store s @ [x]) s'))
    = insert x (set (readCommands_store s))"
proof -
  have nz: "\<forall>c \<in> set (fileCommands s). id_c c \<noteq> 0" using assms(1) by (auto simp: storeInvariant_def)
  then have r: "readCommands_store s = map (recordDefaults 0) (fileCommands s)"
    by (simp add: readCommands_store_def mapRecordDefaults_map)
  have nz': "\<forall>c \<in> set (sort_key id_c (readCommands_store s @ [x])). id_c c \<noteq> 0"
    using nz assms(2) r by (auto simp: id_recordDefaults)
  have fixd: "recordDefaults 0 y = y"
    if yin: "y \<in> set (sort_key id_c (readCommands_store s @ [x]))" for y
  proof (cases "y = x")
    case True
    then show ?thesis using assms(3) by simp
  next
    case False
    then obtain z where "z \<in> set (fileCommands s)" "y = recordDefaults 0 z"
      using yin r by auto
    then show ?thesis using nz recordDefaults_idem [of z 0 0] by simp
  qed
  have "readCommands_store (writeCommands_store (readCommands_store s @ [x]) s')
      = map (recordDefaults 0) (sort_key id_c (readCommands_store s @ [x]))"
    using mapRecordDefaults_map [OF nz']
    by (simp add: readCommands_store_def writeCommands_store_def)
  also have "\<dots> = sort_key id_c (readCommands_store s @ [x])"
    using fixd by (intro map_idI) blast
  finally show ?thesis by simp
qed

lemma unique_hit:
  assumes "c \<in> set cs" "hit sp c" "\<forall>x \<in> set cs. hit sp x \<longrightarrow> x = c"
  shows "\<exists>k. findCommandByIdOrAlias sp cs = Some (c, k)"
proof (cases "findCommandByIdOrAlias sp cs")
  case None
  then show ?thesis
    using assms(1,2) scanCommands_None [of 0 sp cs] by (simp add: findCommandByIdOrAlias_def)
next
  case (Some r)
  obtain d k where r: "r = (d, k)" by (cases r)
  then have "k < length cs \<and> cs ! k = d \<and> hit sp d"
    using Some scanCommands_Some [of 0 sp cs d k] by (simp add: findCommandByIdOrAlias_def)
  then have "d = c" using assms(3) by (metis nth_mem)
  then show ?thesis using Some r by simp
qed

lemma trim_Nil [simp]: "trim [] = []"
  by (simp add: trim_def)

lemma trimOrFalse_cases:
  "trimOrFalse v = None \<or> (\<exists>t. trimOrFalse v = Some t \<and> t \<noteq> [])"
  by (auto simp: trimOrFalse_def split: option.splits)

lemma createdRecord_fixed:
  assumes "n \<noteq> 0" "r_command r = Some c" "validateCommand c"
  shows "recordDefaults 0 (createdRecord n r) = createdRecord n r"
  using assms trimOrFalse_cases [of "r_alias r"] trimOrFalse_cases [of "r_comment r"]
  by (auto simp: recordDefaults_def createdRecord_def validateCommand_def truthy_def)

lemma valid_alias_unique:
  assumes "validAddResponse cs r"
  shows "isAliasUnique (trimOrFalse (r_alias r)) cs None"
proof (cases "r_alias r")
  case None
  then show ?thesis by (simp add: trimOrFalse_def isAliasUnique_def truthy_def)
next
  case (Some a)
  show ?thesis
  proof (cases "trim a = []")
    case True
    then show ?thesis using Some by (simp add: trimOrFalse_def isAliasUnique_def truthy_def)
  next
    case False
    then have "a \<noteq> []" by auto
    then have "isAliasUnique (Some (trim a)) cs None"
      using assms Some by (auto simp: validAddResponse_def validateAlias_def split: if_splits)
    then show ?thesis using Some False by (simp add: trimOrFalse_def)
  qed
qed

lemma add_valid:
  assumes "validAddResponse (readCommands_store s) r"
  shows "handleAddCommand r s =
     (writeCommands_store (readCommands_store s @ [createdRecord (readConfig s) r])
        (writeConfig (readConfig s + 1) s),
      [OkAdded (readConfig s) (trimOrFalse (r_alias r))])"
proof -
  from assms obtain c where c: "r_command r = Some c" "trim c \<noteq> []"
    by (auto simp: validAddResponse_def validateCommand_def split: option.splits)
  then have "c \<noteq> []" by auto
  then show ?thesis
    using c valid_alias_unique [OF assms]
    by (simp add: handleAddCommand_def getNextId_def createdRecord_def Let_def)
qed

text \<open>
  C8 (as amended). In a store that satisfies the invariant of the counter, an add whose
  answers passed the validation of the prompts writes the created record with the id
  \<open>readConfig s\<close>. Resolving the decimal text of that id against the records read back
  returns the created record, provided no record present before carries that text as its
  alias. When the created record has an alias, resolving the alias returns the created
  record, provided \<^verbatim>\<open>parseInt\<close> of the alias is not the id of a record present before.
\<close>

theorem create_then_resolve:
  assumes inv: "storeInvariant s" and valid: "validAddResponse (readCommands_store s) r"
  shows "handleAddCommand r s =
      (writeCommands_store (readCommands_store s @ [createdRecord (readConfig s) r])
         (writeConfig (readConfig s + 1) s),
       [OkAdded (readConfig s) (trimOrFalse (r_alias r))])
    \<and> ((\<forall>x \<in> set (readCommands_store s). \<not> aliasMatch (stringOfInt (readConfig s)) x) \<longrightarrow>
         (\<exists>k. findCommandByIdOrAlias (stringOfInt (readConfig s))
                 (readCommands_store (fst (handleAddCommand r s)))
               = Some (createdRecord (readConfig s) r, k)))
    \<and> (\<forall>t. alias_c (createdRecord (readConfig s) r) = Some t
            \<and> (\<forall>x \<in> set (readCommands_store s). \<not> idMatch t x) \<longrightarrow>
         (\<exists>k. findCommandByIdOrAlias t (readCommands_store (fst (handleAddCommand r s)))
               = Some (createdRecord (readConfig s) r, k)))"
proof -
  let ?n = "readConfig s"
  let ?new = "createdRecord ?n r"
  let ?old = "readCommands_store s"
  let ?after = "readCommands_store (fst (handleAddCommand r s))"
  have run: "handleAddCommand r s =
      (writeCommands_store (?old @ [?new]) (writeConfig (?n + 1) s),
       [OkAdded ?n (trimOrFalse (r_alias r))])"
    by (rule add_valid [OF valid])
  from valid obtain c where c: "r_command r = Some c" "validateCommand c"
    by (auto simp: validAddResponse_def split: option.splits)
  have nz: "?n \<noteq> 0" using inv by (simp add: storeInvariant_def)
  have id_new: "id_c ?new = ?n" by (simp add: createdRecord_def)
  have members: "set ?after = insert ?new (set ?old)"
    unfolding run fst_conv
    by (rule set_read_after_write [OF inv _ createdRecord_fixed [OF nz c]])
       (simp add: id_new nz)
  have older: "id_c x \<noteq> ?n" if "x \<in> set ?old" for x
    using read_inv [OF inv that] by simp
  have by_id: "\<exists>k. findCommandByIdOrAlias (stringOfInt ?n) ?after = Some (?new, k)"
    if free: "\<forall>x \<in> set ?old. \<not> aliasMatch (stringOfInt ?n) x"
  proof (rule unique_hit)
    show "?new \<in> set ?after" using members by simp
    show "hit (stringOfInt ?n) ?new"
      by (simp add: hit_def idMatch_def parseInt_stringOfInt id_new)
    show "\<forall>x \<in> set ?after. hit (stringOfInt ?n) x \<longrightarrow> x = ?new"
    proof (intro ballI impI, rule ccontr)
      fix x assume x: "x \<in> set ?after" "hit (stringOfInt ?n) x" "x \<noteq> ?new"
      then have xo: "x \<in> set ?old" using members by auto
      then have "\<not> idMatch (stringOfInt ?n) x"
        using older [OF xo] by (simp add: idMatch_def parseInt_stringOfInt)
      moreover have "\<not> aliasMatch (stringOfInt ?n) x" using free xo by blast
      ultimately show False using x(2) by (simp add: hit_def)
    qed
  qed
  have by_alias: "\<exists>k. findCommandByIdOrAlias t ?after = Some (?new, k)"
    if t: "alias_c ?new = Some t" and free: "\<forall>x \<in> set ?old. \<not> idMatch t x" for t
  proof (rule unique_hit)
    have a: "trimOrFalse (r_alias r) = Some t" using t by (simp add: createdRecord_def)
    then have tne: "t \<noteq> []" using trimOrFalse_cases [of "r_alias r"] by auto
    have "isAliasUnique (Some t) ?old None" using valid_alias_unique [OF valid] a by simp
    then have no_alias: "\<not> aliasMatch t x" if "x \<in> set ?old" for x
      using that tne by (auto simp: isAliasUnique_set sameAlias_def aliasMatch_def truthy_def)
    show "?new \<in> set ?after" using members by simp
    show "hit t ?new" using t tne by (simp add: hit_def aliasMatch_def truthy_def)
    show "\<forall>x \<in> set ?after. hit t x \<longrightarrow> x = ?new"
    proof (intro ballI impI, rule ccontr)
      fix x assume x: "x \<in> set ?after" "hit t x" "x \<noteq> ?new"
      then have xo: "x \<in> set ?old" using members by auto
      then have "\<not> idMatch t x" "\<not> aliasMatch t x" using free no_alias by blast+
      then show False using x(2) by (simp add: hit_def)
    qed
  qed
  show ?thesis using run by_id by_alias by blast
qed

lemma stringOfInt_2: "stringOfInt 2 = ''2''"
  by (simp add: stringOfInt_def digitsOfNat.simps [of 2] char_of_eq_iff)

theorem create_then_resolve_witness:
  "findCommandByIdOrAlias ''2''
     (readCommands_store (fst (handleAddCommand
        \<lparr>r_command = Some ''git status'', r_alias = Some ''gs'', r_comment = Some '' ''\<rparr>
        \<lparr>fileCommands = [\<lparr>id_c = 1, alias_c = Some ''l'', command = ''ls'', comment = None\<rparr>],
         fileNextId = Some 2\<rparr>)))
   = Some (\<lparr>id_c = 2, alias_c = Some ''gs'', command = ''git status'', comment = None\<rparr>, 1)
   \<and> findCommandByIdOrAlias ''gs''
     (readCommands_store (fst (handleAddCommand
        \<lparr>r_command = Some ''git status'', r_alias = Some ''gs'', r_comment = Some '' ''\<rparr>
        \<lparr>fileCommands = [\<lparr>id_c = 1, alias_c = Some ''l'', command = ''ls'', comment = None\<rparr>],
         fileNextId = Some 2\<rparr>)))
   = Some (\<lparr>id_c = 2, alias_c = Some ''gs'', command = ''git status'', comment = None\<rparr>, 1)"
proof -
  let ?r = "\<lparr>r_command = Some ''git status'', r_alias = Some ''gs'', r_comment = Some '' ''\<rparr>"
  let ?old = "\<lparr>id_c = 1, alias_c = Some ''l'', command = ''ls'', comment = None\<rparr>"
  let ?s = "\<lparr>fileCommands = [?old], fileNextId = Some 2\<rparr>"
  let ?new = "\<lparr>id_c = 2, alias_c = Some ''gs'', command = ''git status'', comment = None\<rparr>"
  have inv: "storeInvariant ?s" by (simp add: storeInvariant_def readConfig_def)
  have old: "readCommands_store ?s = [?old]"
    by (simp add: readCommands_store_def recordDefaults_def truthy_def)
  have valid: "validAddResponse (readCommands_store ?s) ?r"
    unfolding old
    by (simp add: validAddResponse_def validateCommand_def validateAlias_def isAliasUnique_def
        string_eval)
  have n: "readConfig ?s = 2" by (simp add: readConfig_def)
  have new: "createdRecord 2 ?r = ?new"
    by (simp add: createdRecord_def trimOrFalse_def string_eval)
  note ctr = create_then_resolve [OF inv valid, unfolded n stringOfInt_2 new old]
  have h1: "\<forall>x \<in> set [?old]. \<not> aliasMatch ''2'' x"
    by (simp add: aliasMatch_def string_eval)
  have h2: "alias_c ?new = Some ''gs'' \<and> (\<forall>x \<in> set [?old]. \<not> idMatch ''gs'' x)"
    by (simp add: idMatch_def string_eval)
  from ctr h1 obtain k where
    k: "findCommandByIdOrAlias ''2'' (readCommands_store (fst (handleAddCommand ?r ?s)))
        = Some (?new, k)"
    by blast
  from ctr h2 obtain j where
    j: "findCommandByIdOrAlias ''gs'' (readCommands_store (fst (handleAddCommand ?r ?s)))
        = Some (?new, j)"
    by blast
  have after: "readCommands_store (fst (handleAddCommand ?r ?s)) = [?old, ?new]"
    using ctr
    by (simp add: writeCommands_store_def writeConfig_def readCommands_store_def
        recordDefaults_def truthy_def)
  have "k = 1" using k find_index [OF k] unfolding after by (cases k) auto
  moreover have "j = 1" using j find_index [OF j] unfolding after by (cases j) auto
  ultimately show ?thesis using k j by simp
qed

text \<open>
  C8 as stated fails. A first add stores the command \<^verbatim>\<open>ls\<close> under the id 1 with the alias
  \<^verbatim>\<open>2\<close>. A second add, with valid answers, creates the record with the id 2; resolving
  \<^verbatim>\<open>2\<close> then returns the first record, whose alias matches earlier in the scan.
\<close>

theorem create_then_resolve_counterexample:
  "handleAddCommand \<lparr>r_command = Some ''ls'', r_alias = Some ''2'', r_comment = Some ''''\<rparr>
     initialStore
   = (\<lparr>fileCommands = [\<lparr>id_c = 1, alias_c = Some ''2'', command = ''ls'', comment = None\<rparr>],
       fileNextId = Some 2\<rparr>, [OkAdded 1 (Some ''2'')])
   \<and> validAddResponse
       [\<lparr>id_c = 1, alias_c = Some ''2'', command = ''ls'', comment = None\<rparr>]
       \<lparr>r_command = Some ''pwd'', r_alias = Some '''', r_comment = Some ''''\<rparr>
   \<and> handleAddCommand \<lparr>r_command = Some ''pwd'', r_alias = Some '''', r_comment = Some ''''\<rparr>
       \<lparr>fileCommands = [\<lparr>id_c = 1, alias_c = Some ''2'', command = ''ls'', comment = None\<rparr>],
        fileNextId = Some 2\<rparr>
     = (\<lparr>fileCommands = [\<lparr>id_c = 1, alias_c = Some ''2'', command = ''ls'', comment = None\<rparr>,
                          \<lparr>id_c = 2, alias_c = None, command = ''pwd'', comment = None\<rparr>],
         fileNextId = Some 3\<rparr>, [OkAdded 2 None])
   \<and> stringOfInt 2 = ''2''
   \<and> findCommandByIdOrAlias ''2''
       (readCommands_store
         \<lparr>fileCommands = [\<lparr>id_c = 1, alias_c = Some ''2'', command = ''ls'', comment = None\<rparr>,
                          \<lparr>id_c = 2, alias_c = None, command = ''pwd'', comment = None\<rparr>],
          fileNextId = Some 3\<rparr>)
     = Some (\<lparr>id_c = 1, alias_c = Some ''2'', command = ''ls'', comment = None\<rparr>, 0)"
  by (simp add: store_eval string_eval validAddResponse_def validateCommand_def
      validateAlias_def stringOfInt_2)

text \<open>
  The same happens to the alias of a created record when \<^verbatim>\<open>parseInt\<close> reads the id of an
  older record out of it.
\<close>

lemma resolve_new_alias_shadowed:
  "validAddResponse
       [\<lparr>id_c = 1, alias_c = None, command = ''ls'', comment = None\<rparr>]
       \<lparr>r_command = Some ''pwd'', r_alias = Some ''1x'', r_comment = Some ''''\<rparr>
   \<and> handleAddCommand \<lparr>r_command = Some ''pwd'', r_alias = Some ''1x'', r_comment = Some ''''\<rparr>
       \<lparr>fileCommands = [\<lparr>id_c = 1, alias_c = None, command = ''ls'', comment = None\<rparr>],
        fileNextId = Some 2\<rparr>
     = (\<lparr>fileCommands = [\<lparr>id_c = 1, alias_c = None, command = ''ls'', comment = None\<rparr>,
                          \<lparr>id_c = 2, alias_c = Some ''1x'', command = ''pwd'', comment = None\<rparr>],
         fileNextId = Some 3\<rparr>, [OkAdded 2 (Some ''1x'')])
   \<and> findCommandByIdOrAlias ''1x''
       (readCommands_store
         \<lparr>fileCommands = [\<lparr>id_c = 1, alias_c = None, command = ''ls'', comment = None\<rparr>,
                          \<lparr>id_c = 2, alias_c = Some ''1x'', command = ''pwd'', comment = None\<rparr>],
          fileNextId = Some 3\<rparr>)
     = Some (\<lparr>id_c = 1, alias_c = None, command = ''ls'', comment = None\<rparr>, 0)"
  by (simp add: store_eval string_eval validAddResponse_def validateCommand_def
      validateAlias_def)

section \<open>A write that fails\<close>

text \<open>
  \<^verbatim>\<open>writeCommands\<close> writes straight over the records file. When the configuration
  directory is there or can be created, the call always returns: a write that completes
  prints nothing and leaves the serialised sorted list in the file; a write that fails is
  reported by one line and leaves in the file either what was there before (the file
  could not be opened) or a prefix of the intended content, which may be empty.
\<close>

lemma writeCommands_outcomes:
  assumes "configDir \<noteq> DirUncreatable"
  shows "\<exists>out f'. writeCommands fault configDir commands f = Inr (out, f')
     \<and> (fault = NoFault \<longrightarrow>
          out = [] \<and> f' = Content (stringify 0 (JArr (sort_key idOf commands))))
     \<and> (fault \<noteq> NoFault \<longrightarrow>
          out = [ErrWritingCommandsFile]
          \<and> (f' = f
              \<or> (\<exists>k. f' = Content (take k (stringify 0 (JArr (sort_key idOf commands)))))))"
  using assms by (cases fault) (auto simp: writeCommands_def writeFileSync_def Let_def)

text \<open>
  The handlers of the store are the handlers on the files with every write completing:
  each handler of the store does to the store what its recorded writes say, and prints
  the same lines.
\<close>

lemma handleAddCommand_as_writes:
  "handleAddCommand r s =
     (completeWrites (fst (handleAddCommand_writes r (readCommands_store s) (readConfig s))) s,
      snd (handleAddCommand_writes r (readCommands_store s) (readConfig s)))"
  by (simp add: handleAddCommand_def handleAddCommand_writes_def completeWrites_def noWrites_def
      getNextId_def Let_def split: option.splits)

lemma handleDeleteCommand_as_writes:
  "handleDeleteCommand c sp s =
     (completeWrites (fst (handleDeleteCommand_writes c sp (readCommands_store s))) s,
      snd (handleDeleteCommand_writes c sp (readCommands_store s)))"
  by (simp add: handleDeleteCommand_def handleDeleteCommand_writes_def completeWrites_def
      noWrites_def Let_def split: option.splits)

lemma handleEditCommand_as_writes:
  "handleEditCommand r sp s =
     map_sum (\<lambda>e. e) (\<lambda>(w, out). (completeWrites w s, out))
       (handleEditCommand_writes r sp (readCommands_store s))"
  by (simp add: handleEditCommand_def handleEditCommand_writes_def completeWrites_def
      noWrites_def Let_def split: option.splits prod.splits)

lemma handleImportCommand_as_writes:
  "handleImportCommand src app c s =
     map_sum (\<lambda>e. e) (\<lambda>(w, out). (completeWrites w s, out))
       (handleImportCommand_writes src app c (readCommands_store s) (readConfig s))"
  by (simp add: handleImportCommand_def handleImportCommand_writes_def completeWrites_def
      noWrites_def firstNewId_def Let_def
      split: import_source.splits jsval.splits sum.splits prod.splits)

text \<open>
  The objects that \<^verbatim>\<open>writeCommands\<close> serialises stand for the records that the store
  holds after the handler, in the same order.
\<close>

lemma recordOf_objects [simp]:
  "recordOf (loadedObject c) = c" "recordOf (createdObject c) = c"
  by (simp_all add: recordOf_def loadedObject_def createdObject_def idOf_def optionalString_def
      split: option.splits)

lemma insort_key_recordOf:
  "map recordOf (insort_key idOf x xs) = insort_key id_c (recordOf x) (map recordOf xs)"
  by (induction xs) (auto simp: recordOf_def)

lemma sort_key_recordOf:
  "map recordOf (sort_key idOf xs) = sort_key id_c (map recordOf xs)"
  by (induction xs) (auto simp: insort_key_recordOf)

lemma written_objects:
  assumes "commandsWrite w = Some (loaded, created)"
  shows "map recordOf (sort_key idOf (map loadedObject loaded @ map createdObject created))
     = fileCommands (completeWrites w s)"
  using assms
  by (simp add: sort_key_recordOf comp_def completeWrites_def writeCommands_store_def
      split: option.splits)

text \<open>What the recorded writes leave in the records file, whatever the faults.\<close>

lemma persist_outcomes:
  assumes "configDir \<noteq> DirUncreatable"
  shows "\<exists>errors d'. persist configFault recordsFault configDir w d = Inr (errors, d')
     \<and> (case commandsWrite w of
          None \<Rightarrow> recordsFile d' = recordsFile d \<and> ErrWritingCommandsFile \<notin> set errors
        | Some (loaded, created) \<Rightarrow>
            (recordsFault = NoFault \<longrightarrow>
               recordsFile d' = Content (stringify 0 (JArr (sort_key idOf
                  (map loadedObject loaded @ map createdObject created))))
               \<and> ErrWritingCommandsFile \<notin> set errors)
            \<and> (recordsFault \<noteq> NoFault \<longrightarrow>
                 ErrWritingCommandsFile \<in> set errors
                 \<and> (recordsFile d' = recordsFile d
                     \<or> (\<exists>k. recordsFile d' = Content (take k (stringify 0 (JArr (sort_key idOf
                           (map loadedObject loaded @ map createdObject created)))))))))"
proof -
  obtain e1 c' where c: "(case configWrite w of
              None \<Rightarrow> Inr ([], configFile d)
            | Some nextId \<Rightarrow> writeConfig_file configFault configDir nextId (configFile d))
        = Inr (e1, c')" and e1: "ErrWritingCommandsFile \<notin> set e1"
    using assms
    by (cases "configWrite w"; cases configFault)
       (auto simp: writeConfig_file_def writeFileSync_def)
  show ?thesis
  proof (cases "commandsWrite w")
    case None
    then show ?thesis using c e1 by (simp add: persist_def)
  next
    case (Some lc)
    obtain loaded created where lc: "lc = (loaded, created)" by (cases lc)
    from writeCommands_outcomes [OF assms, of recordsFault
        "map loadedObject loaded @ map createdObject created" "recordsFile d"]
    obtain out f' where
      w: "writeCommands recordsFault configDir
            (map loadedObject loaded @ map createdObject created) (recordsFile d) = Inr (out, f')"
      and ok: "recordsFault = NoFault \<longrightarrow> out = []
          \<and> f' = Content (stringify 0 (JArr (sort_key idOf
                  (map loadedObject loaded @ map createdObject created))))"
      and bad: "recordsFault \<noteq> NoFault \<longrightarrow> out = [ErrWritingCommandsFile]
          \<and> (f' = recordsFile d \<or> (\<exists>k. f' = Content (take k (stringify 0 (JArr (sort_key idOf
                  (map loadedObject loaded @ map createdObject created)))))))"
      by blast
    have p: "persist configFault recordsFault configDir w d
        = Inr (e1 @ out, \<lparr>recordsFile = f', configFile = c'\<rparr>)"
      using c w Some lc by (simp add: persist_def)
    show ?thesis using p ok bad e1 Some lc by auto
  qed
qed

text \<open>
  C9 (as amended). Take any of the operations that change the files (add, delete, edit,
  import, with any answers to their prompts), run on any list of records and any counter
  read before, with the files in any state and any fault met by the two writes, the
  configuration directory being there or creatable. When the handler throws, it throws
  before it writes. Otherwise the run ends without a fatal exit and prints the lines of
  the handler. When the handler writes no list, the records file is as it was. When the
  handler writes a list, it does so by one call of \<^verbatim>\<open>writeCommands\<close>, which writes
  straight over the records file (there is no temporary file and no rename): if the
  write completes, the file holds the serialised sorted list and no error on the records
  file is reported; if it does not complete, the error is reported, and the file holds
  either what it held before (it could not be opened) or a prefix of the intended
  content, which may be empty.
\<close>

theorem mutation_overwrites_in_place:
  assumes "configDir \<noteq> DirUncreatable"
  shows "case writesOf operation commands nextId of
      Inl e \<Rightarrow>
        perform configFault recordsFault configDir operation commands nextId d = Inr (Inl e)
    | Inr (w, out) \<Rightarrow>
        (\<exists>errors d'.
           perform configFault recordsFault configDir operation commands nextId d
             = Inr (Inr (out, errors, d'))
           \<and> (case commandsWrite w of
                None \<Rightarrow> recordsFile d' = recordsFile d \<and> ErrWritingCommandsFile \<notin> set errors
              | Some (loaded, created) \<Rightarrow>
                  (recordsFault = NoFault \<longrightarrow>
                     recordsFile d' = Content (stringify 0 (JArr (sort_key idOf
                        (map loadedObject loaded @ map createdObject created))))
                     \<and> ErrWritingCommandsFile \<notin> set errors)
                  \<and> (recordsFault \<noteq> NoFault \<longrightarrow>
                       ErrWritingCommandsFile \<in> set errors
                       \<and> (recordsFile d' = recordsFile d
                           \<or> (\<exists>k. recordsFile d' = Content (take k (stringify 0 (JArr
                                 (sort_key idOf
                                   (map loadedObject loaded @ map createdObject created))))))))))"
proof (cases "writesOf operation commands nextId")
  case (Inl e)
  then show ?thesis by (simp add: perform_def)
next
  case (Inr wo)
  obtain w out where wo: "wo = (w, out)" by (cases wo)
  from persist_outcomes [OF assms, of configFault recordsFault w d]
  obtain errors d' where p: "persist configFault recordsFault configDir w d = Inr (errors, d')"
    and rest: "case commandsWrite w of
          None \<Rightarrow> recordsFile d' = recordsFile d \<and> ErrWritingCommandsFile \<notin> set errors
        | Some (loaded, created) \<Rightarrow>
            (recordsFault = NoFault \<longrightarrow>
               recordsFile d' = Content (stringify 0 (JArr (sort_key idOf
                  (map loadedObject loaded @ map createdObject created))))
               \<and> ErrWritingCommandsFile \<notin> set errors)
            \<and> (recordsFault \<noteq> NoFault \<longrightarrow>
                 ErrWritingCommandsFile \<in> set errors
                 \<and> (recordsFile d' = recordsFile d
                     \<or> (\<exists>k. recordsFile d' = Content (take k (stringify 0 (JArr (sort_key idOf
                           (map loadedObject loaded @ map createdObject created))))))))"
    by blast
  have "perform configFault recordsFault configDir operation commands nextId d
      = Inr (Inr (out, errors, d'))"
    using Inr wo p by (simp add: perform_def)
  then show ?thesis using Inr wo rest by auto
qed

lemmas file_eval = perform_def writesOf_def persist_def writeCommands_def writeConfig_file_def
  writeFileSync_def handleAddCommand_writes_def handleEditCommand_writes_def
  handleDeleteCommand_writes_def handleImportCommand_writes_def noWrites_def
  loadedObject_def createdObject_def optionalString_def idOf_def spread_def indent_def
  quoteJSON_def escapeChar_def trimOrFalse_def isAliasUnique_def Let_def
  findCommandByIdOrAlias_def updateOptional_def

text \<open>
  C9 as stated fails. The records file holds one record, and an edit changes its command.
  The write of the edit handler fails after the file was opened and before any data was
  written: the error is reported, the handler still prints that the command was updated,
  and the file is left empty, which is neither the content before nor the content
  intended. And when the configuration directory is not there and cannot be created,
  \<^verbatim>\<open>writeCommands\<close> ends the process with status 1: the failure is fatal.
\<close>

theorem mutation_truncates_file:
  "perform NoFault (WriteFailsAfter 0) DirExists
     (OpEdit \<lparr>newCommand = Some ''ls -la'', newAlias = Some '''', newComment = Some ''''\<rparr> ''1'')
     [\<lparr>id_c = 1, alias_c = None, command = ''ls'', comment = None\<rparr>] 2
     \<lparr>recordsFile = Content (stringify 0 (JArr
        [loadedObject \<lparr>id_c = 1, alias_c = None, command = ''ls'', comment = None\<rparr>])),
      configFile = Content (stringify 0 (JObj [(''nextId'', JNum 2)]))\<rparr>
   = Inr (Inr ([InfoEditing 1 None ''ls'' None, OkUpdated 1], [ErrWritingCommandsFile],
        \<lparr>recordsFile = Content [],
         configFile = Content (stringify 0 (JObj [(''nextId'', JNum 2)]))\<rparr>))
   \<and> stringify 0 (JArr
        [loadedObject \<lparr>id_c = 1, alias_c = None, command = ''ls'', comment = None\<rparr>]) \<noteq> []
   \<and> stringify 0 (JArr
        [loadedObject \<lparr>id_c = 1, alias_c = None, command = ''ls -la'', comment = None\<rparr>]) \<noteq> []
   \<and> perform NoFault NoFault DirUncreatable
     (OpEdit \<lparr>newCommand = Some ''ls -la'', newAlias = Some '''', newComment = Some ''''\<rparr> ''1'')
     [\<lparr>id_c = 1, alias_c = None, command = ''ls'', comment = None\<rparr>] 2
     \<lparr>recordsFile = Content (stringify 0 (JArr
        [loadedObject \<lparr>id_c = 1, alias_c = None, command = ''ls'', comment = None\<rparr>])),
      configFile = Content (stringify 0 (JObj [(''nextId'', JNum 2)]))\<rparr>
   = Inl Exit1"
  by (simp add: file_eval string_eval)

theorem mutation_overwrites_in_place_witness:
  "writesOf (OpAdd \<lparr>r_command = Some ''pwd'', r_alias = Some '''', r_comment = Some ''''\<rparr>)
     [\<lparr>id_c = 1, alias_c = Some ''l'', command = ''ls'', comment = None\<rparr>] 2
   = Inr (\<lparr>configWrite = Some 3,
          commandsWrite = Some
            ([\<lparr>id_c = 1, alias_c = Some ''l'', command = ''ls'', comment = None\<rparr>],
             [\<lparr>id_c = 2, alias_c = None, command = ''pwd'', comment = None\<rparr>])\<rparr>,
         [OkAdded 2 None])
   \<and> perform NoFault (WriteFailsAfter 7) DirExists
       (OpAdd \<lparr>r_command = Some ''pwd'', r_alias = Some '''', r_comment = Some ''''\<rparr>)
       [\<lparr>id_c = 1, alias_c = Some ''l'', command = ''ls'', comment = None\<rparr>] 2
       \<lparr>recordsFile = Content (stringify 0 (JArr
          [loadedObject \<lparr>id_c = 1, alias_c = Some ''l'', command = ''ls'', comment = None\<rparr>])),
        configFile = Content (stringify 0 (JObj [(''nextId'', JNum 2)]))\<rparr>
     = Inr (Inr ([OkAdded 2 None], [ErrWritingCommandsFile],
          \<lparr>recordsFile = Content [CHR ''['', CHR 0x0A, CHR '' '', CHR '' '', CHR ''{'', CHR 0x0A,
                                   CHR '' ''],
           configFile = Content (stringify 0 (JObj [(''nextId'', JNum 3)]))\<rparr>))
   \<and> perform NoFault NoFault DirExists
       (OpAdd \<lparr>r_command = Some ''pwd'', r_alias = Some '''', r_comment = Some ''''\<rparr>)
       [\<lparr>id_c = 1, alias_c = Some ''l'', command = ''ls'', comment = None\<rparr>] 2
       \<lparr>recordsFile = Content (stringify 0 (JArr
          [loadedObject \<lparr>id_c = 1, alias_c = Some ''l'', command = ''ls'', comment = None\<rparr>])),
        configFile = Content (stringify 0 (JObj [(''nextId'', JNum 2)]))\<rparr>
     = Inr (Inr ([OkAdded 2 None], [],
          \<lparr>recordsFile = Content (stringify 0 (JArr
             [loadedObject \<lparr>id_c = 1, alias_c = Some ''l'', command = ''ls'', comment = None\<rparr>,
              createdObject \<lparr>id_c = 2, alias_c = None, command = ''pwd'', comment = None\<rparr>])),
           configFile = Content (stringify 0 (JObj [(''nextId'', JNum 3)]))\<rparr>))"
proof -
  let ?op = "OpAdd \<lparr>r_command = Some ''pwd'', r_alias = Some '''', r_comment = Some ''''\<rparr>"
  let ?old = "\<lparr>id_c = 1, alias_c = Some ''l'', command = ''ls'', comment = None\<rparr>"
  let ?new = "\<lparr>id_c = 2, alias_c = None, command = ''pwd'', comment = None\<rparr>"
  let ?d = "\<lparr>recordsFile = Content (stringify 0 (JArr [loadedObject ?old])),
        configFile = Content (stringify 0 (JObj [(''nextId'', JNum 2)]))\<rparr>"
  have dir: "DirExists \<noteq> DirUncreatable" by simp
  have w: "writesOf ?op [?old] 2
      = Inr (\<lparr>configWrite = Some 3, commandsWrite = Some ([?old], [?new])\<rparr>, [OkAdded 2 None])"
    by (simp add: writesOf_def handleAddCommand_writes_def trimOrFalse_def isAliasUnique_def
        Let_def string_eval)
  from mutation_overwrites_in_place [OF dir, where operation = ?op and commands = "[?old]"
      and nextId = 2 and configFault = NoFault and recordsFault = NoFault and d = ?d]
  obtain errors d' where
    ok: "perform NoFault NoFault DirExists ?op [?old] 2 ?d = Inr (Inr ([OkAdded 2 None], errors, d'))"
    and f: "recordsFile d' = Content (stringify 0 (JArr [loadedObject ?old, createdObject ?new]))"
    by (auto simp: w idOf_def loadedObject_def createdObject_def)
  have ok': "perform NoFault NoFault DirExists ?op [?old] 2 ?d
      = Inr (Inr ([OkAdded 2 None], [],
          \<lparr>recordsFile = recordsFile d',
           configFile = Content (stringify 0 (JObj [(''nextId'', JNum 3)]))\<rparr>))"
    using ok w by (auto simp: perform_def persist_def writeConfig_file_def writeCommands_def
        writeFileSync_def Let_def)
  from mutation_overwrites_in_place [OF dir, where operation = ?op and commands = "[?old]"
      and nextId = 2 and configFault = NoFault and recordsFault = "WriteFailsAfter 7" and d = ?d]
  obtain errors2 d2 where
    bad: "perform NoFault (WriteFailsAfter 7) DirExists ?op [?old] 2 ?d
        = Inr (Inr ([OkAdded 2 None], errors2, d2))"
    and e2: "ErrWritingCommandsFile \<in> set errors2"
    by (auto simp: w)
  have bad': "perform NoFault (WriteFailsAfter 7) DirExists ?op [?old] 2 ?d
     = Inr (Inr ([OkAdded 2 None], [ErrWritingCommandsFile],
          \<lparr>recordsFile = Content [CHR ''['', CHR 0x0A, CHR '' '', CHR '' '', CHR ''{'', CHR 0x0A,
                                   CHR '' ''],
           configFile = Content (stringify 0 (JObj [(''nextId'', JNum 3)]))\<rparr>))"
    by (simp add: file_eval string_eval eval_nat_numeral)
  show ?thesis using w ok' f bad bad' e2 by simp
qed

section \<open>The records file read as records\<close>

text \<open>
  The handlers of the store are modelled on records; the file holds their objects. On a
  file that parses to the objects of well-typed records, \<^verbatim>\<open>readCommands\<close> returns the
  objects of the records that \<open>mapRecordDefaults\<close> gives, and prints nothing.
\<close>

lemma mapWithDefaults_loaded:
  "mapWithDefaults i (map loadedObject cs) = Inr (map loadedObject (mapRecordDefaults i cs))"
  by (induction cs arbitrary: i)
     (auto simp: withDefaults_def loadedObject_def recordDefaults_def nullish_def
        optionalString_def truthy_def split: option.splits)

lemma readCommands_loaded:
  assumes "configDir \<noteq> DirUncreatable" "trim text \<noteq> []"
    and "JSON_parse text = Some (JArr (map loadedObject cs))"
  shows "readCommands JSON_parse configDir (Content text)
    = Inr ([], map loadedObject (mapRecordDefaults 0 cs))"
  using assms by (simp add: readCommands_def mapWithDefaults_loaded)

end
